theory Spec2Isabelle
  imports Main "HOL-Library.AList" "HOL-Library.Sublist"
begin

section \<open>Strings and objects of the host language\<close>

text \<open>
  A JavaScript string is a \<open>string\<close>. The string operations the service uses are
  \<open>RegExp.test\<close> with a pattern that is an alternation of literals (a substring
  search), \<open>String.replace\<close> with a literal pattern and a replacement without
  \<open>$\<close> (the first occurrence is replaced, the string is returned as it is when there
  is none), \<open>String.split\<close> with a one character separator, and \<open>Array.join\<close>.
\<close>

fun includes_str :: "string \<Rightarrow> string \<Rightarrow> bool" where
  "includes_str pat [] = (pat = [])"
| "includes_str pat (c # cs) = (prefix pat (c # cs) \<or> includes_str pat cs)"

fun replace_str :: "string \<Rightarrow> string \<Rightarrow> string \<Rightarrow> string" where
  "replace_str pat rep [] = (if pat = [] then rep else [])"
| "replace_str pat rep (c # cs) =
     (if prefix pat (c # cs) then rep @ drop (length pat) (c # cs)
      else c # replace_str pat rep cs)"

fun split_str :: "char \<Rightarrow> string \<Rightarrow> string list" where
  "split_str sep [] = [[]]"
| "split_str sep (c # cs) =
     (let r = split_str sep cs
      in if c = sep then [] # r else (c # hd r) # tl r)"

fun join_str :: "string \<Rightarrow> string list \<Rightarrow> string" where
  "join_str sep [] = []"
| "join_str sep [x] = x"
| "join_str sep (x # y # ys) = x @ sep @ join_str sep (y # ys)"

text \<open>\<open>xs[i]\<close> of an array: \<open>undefined\<close> (here \<open>None\<close>) out of range.\<close>

definition at_index :: "'a list \<Rightarrow> nat \<Rightarrow> 'a option" where
  "at_index xs i = (if i < length xs then Some (xs ! i) else None)"

text \<open>\<open>Array.findIndex\<close>: the index of the first element that satisfies the
  predicate, \<open>-1\<close> when there is none.\<close>

fun findIndex :: "('a \<Rightarrow> bool) \<Rightarrow> 'a list \<Rightarrow> int" where
  "findIndex p [] = -1"
| "findIndex p (x # xs) =
     (if p x then 0 else (let i = findIndex p xs in if i = -1 then -1 else i + 1))"

text \<open>
  An object used as a dictionary is an association list in the order in which
  \<open>Object.keys\<close> and \<open>for ... in\<close> enumerate it: keys are distinct, an assignment to
  a present key keeps its place, a new key goes to the end (\<open>AList.update\<close>). The
  engine enumerates keys that are array indices first; the only objects whose order the
  service observes are keyed by carrier codes, which contain a letter.
\<close>

type_synonym 'v obj = "(string \<times> 'v) list"

abbreviation obj_keys :: "'v obj \<Rightarrow> string list" where
  "obj_keys ob \<equiv> map fst ob"

text \<open>\<open>[Object.keys(o)[0]]\<close> as a computed property name: the first key, and the
  text of \<open>undefined\<close> when the object has no key.\<close>

definition first_key :: "'v obj \<Rightarrow> string" where
  "first_key ob = (case obj_keys ob of [] \<Rightarrow> ''undefined'' | k # _ \<Rightarrow> k)"

section \<open>Data model\<close>

record ProductRequest =
  productName :: string
  count :: int

record ProductRequestExtended = ProductRequest +
  rarities :: "string list"
  card_id :: string
  card_name :: string
  card_number :: string

text \<open>A card document as projected by the query: \<open>{ rarity, name, number }\<close>.\<close>

record CardsDataType =
  card_rarity :: "string list"
  name_of_card :: string
  number_of_card :: string

text \<open>An entry of \<open>Shop.products\<close>: \<open>{ id, price, qtl }\<close>.\<close>

record ShopProduct =
  product_id :: string
  product_price :: int
  product_qtl :: int

record ProdDetail =
  price :: int
  qtl :: int
  detail_id :: string
  shopId :: string
  deliver_way :: "int obj"

record Shop =
  shop_id :: string
  products :: "ShopProduct obj"
  shipPrices :: "int obj"
  freeShip :: "int obj"

text \<open>An item of \<open>RutenProductDetailListResponse.data\<close>.\<close>

record RutenProductDetail =
  item_name :: string
  goods_price :: int
  num :: int
  item_id :: string
  user :: string
  item_deliver_way :: "int obj"

record SopIdList =
  sop_name :: string
  sop_id :: string

text \<open>
  What can be thrown or pushed on the error accumulator: \<open>new Error(message)\<close>, a
  plain string, the engine's \<open>TypeError\<close> for a property read on \<open>undefined\<close>, and
  whatever a collaborator (the HTTP client, the data access service) rejects with.
\<close>

datatype error = Error string | Text string | TypeError | Rejected string

record Service =
  shoppingList :: "ProductRequest list"
  shoppingListExtended :: "ProductRequestExtended list"
  shopList :: "Shop list"
  errorHandler :: "error list"

section \<open>Constructor\<close>

definition constructor :: "ProductRequest list \<Rightarrow> Service" where
  "constructor shoppingList0 =
     \<lparr> shoppingList = map (\<lambda>x. x\<lparr>count := min (count x) 3\<rparr>) shoppingList0,
       shoppingListExtended = [],
       shopList = [],
       errorHandler = [] \<rparr>"

section \<open>Collaborators\<close>

text \<open>
  The four marketplace endpoints are requested through \<open>getRutenApis\<close>, which renders
  an endpoint type and its keywords as a URL. A request is identified here by that type
  and those keywords (for \<open>SHOP_PROD_LIST\<close>: shop id, limit, target product).
\<close>

datatype RutenApis =
    PROD_LIST string
  | PROD_DETAIL_LIST string
  | SHOP_SHIP_INFO string
  | SHOP_INFO string
  | SHOP_PROD_LIST string int string

text \<open>
  The typed payloads: the \<open>Id\<close>s of \<open>Rows\<close>; the items of \<open>data\<close>;
  \<open>data.user_id\<close>; and \<open>data.discount_conditions\<close>, each condition by its
  \<open>arrival_amount\<close>.
\<close>

datatype Response =
    RutenShipListResponse "string list"
  | RutenProductDetailListResponse "RutenProductDetail list"
  | RutenStoreDetailResponse string
  | ShipInfoResponse "int obj"

text \<open>
  What the service calls and does not define: the data access service (\<open>find\<close> on the
  cards collection, by card id and rarity pattern), the HTTP client, and the title
  heuristics imported from \<open>../utils\<close>, which are parameters of the model. Within one
  run a collaborator answers a request the same way each time it is asked.
\<close>

record Collaborators =
  find_cards :: "string \<Rightarrow> string option \<Rightarrow> error + CardsDataType list"
  axios_get :: "RutenApis \<Rightarrow> error + Response"
  containsAllKeywords :: "string \<Rightarrow> string \<Rightarrow> bool"
  isIllegalProductChar :: "string \<Rightarrow> bool"
  isFanMode :: "string \<Rightarrow> bool"
  isUnopenedPackProduct :: "string \<Rightarrow> bool"
  notContainsAnotherRarity :: "string \<Rightarrow> string \<Rightarrow> nat \<Rightarrow> bool"

section \<open>Shipping fees of a listing\<close>

text \<open>The test \<open>/(SEVEN|FAMI|HILIFE)/.test(way)\<close> and the key
  \<open>way.replace('_COD', '').replace('FAMI', 'FAMILY')\<close> of \<open>extractShipPrices\<close>.\<close>

definition carrier_test :: "string \<Rightarrow> bool" where
  "carrier_test way \<longleftrightarrow>
     includes_str ''SEVEN'' way \<or> includes_str ''FAMI'' way \<or> includes_str ''HILIFE'' way"

definition carrier_key :: "string \<Rightarrow> string" where
  "carrier_key way = replace_str ''FAMI'' ''FAMILY'' (replace_str ''_COD'' [] way)"

definition extractShipPrices :: "int obj \<Rightarrow> int obj" where
  "extractShipPrices deliverWay =
     fold (\<lambda>(way, fee) shipPrices.
             if carrier_test way then AList.update (carrier_key way) fee shipPrices
             else shipPrices)
          deliverWay []"

section \<open>Stage A: card metadata\<close>

text \<open>\<open>${x}\<close> in a template literal, for a string that may be \<open>undefined\<close>.\<close>

definition template_str :: "string option \<Rightarrow> string" where
  "template_str x = (case x of None \<Rightarrow> ''undefined'' | Some v \<Rightarrow> v)"

text \<open>The \<open>map\<close> that opens \<open>getProductRequestExtended\<close>; the first piece of a split
  string always exists.\<close>

definition extend_request :: "ProductRequest \<Rightarrow> ProductRequestExtended" where
  "extend_request x =
     \<lparr> productName = productName x, count = count x,
       rarities = [],
       card_id = hd (split_str CHR ''+'' (productName x)),
       card_name = [],
       card_number = [] \<rparr>"

text \<open>Its loop: an error of \<open>find\<close> propagates, and the first item for which no card
  comes back ends the loop with a throw.\<close>

fun resolve_cards ::
  "Collaborators \<Rightarrow> ProductRequestExtended list \<Rightarrow> error + ProductRequestExtended list"
where
  "resolve_cards env [] = Inr []"
| "resolve_cards env (prodReq # rest) =
     (let rarity = at_index (split_str CHR ''+'' (productName prodReq)) 1
      in case find_cards env (card_id prodReq) rarity of
           Inl e \<Rightarrow> Inl e
         | Inr [] \<Rightarrow>
             Inl (Error (''Card data not found for '' @ card_id prodReq @ '' ''
                         @ template_str rarity))
         | Inr (cardData # _) \<Rightarrow>
             (case resolve_cards env rest of
                Inl e \<Rightarrow> Inl e
              | Inr rest' \<Rightarrow>
                  Inr (prodReq\<lparr> card_name := name_of_card cardData,
                             card_number := number_of_card cardData,
                             rarities := card_rarity cardData \<rparr> # rest')))"

definition getProductRequestExtended ::
  "Collaborators \<Rightarrow> Service \<Rightarrow> error + ProductRequestExtended list"
where
  "getProductRequestExtended env s = resolve_cards env (map extend_request (shoppingList s))"

section \<open>Listing filter\<close>

definition to_ProdDetail :: "RutenProductDetail \<Rightarrow> ProdDetail" where
  "to_ProdDetail x =
     \<lparr> price = goods_price x, qtl = num x, detail_id = item_id x, shopId = user x,
       deliver_way = item_deliver_way x \<rparr>"

text \<open>The four chained \<open>filter\<close> calls, innermost first.\<close>

definition title_filters :: "Collaborators \<Rightarrow> string \<Rightarrow> RutenProductDetail list
    \<Rightarrow> RutenProductDetail list" where
  "title_filters env productName0 list0 =
     filter (\<lambda>x. isUnopenedPackProduct env (item_name x))
       (filter (\<lambda>x. isFanMode env (item_name x))
         (filter (\<lambda>x. isIllegalProductChar env (item_name x))
           (filter (\<lambda>x. containsAllKeywords env (item_name x) productName0) list0)))"

text \<open>The guarded loop over the other rarities; \<open>nowRarity\<close> is falsy when it is
  \<open>undefined\<close> or the empty string.\<close>

definition rarity_filters :: "Collaborators \<Rightarrow> string list option \<Rightarrow> string option
    \<Rightarrow> RutenProductDetail list \<Rightarrow> RutenProductDetail list" where
  "rarity_filters env rarities0 nowRarity list0 =
     (case (rarities0, nowRarity) of
        (Some rs, Some now) \<Rightarrow>
          if now \<noteq> [] \<and> length rs > 0
          then fold (\<lambda>rar l.
                       filter (\<lambda>x. notContainsAnotherRarity env (item_name x) rar (length rs)) l)
                    (filter (\<lambda>x. x \<noteq> now) rs) list0
          else list0
      | _ \<Rightarrow> list0)"

definition filterProdDetail :: "Collaborators \<Rightarrow> Service \<Rightarrow> RutenProductDetail list
    \<Rightarrow> string \<Rightarrow> ProdDetail list" where
  "filterProdDetail env s data productName0 =
     (let rarities0 = map_option rarities
                        (find (\<lambda>x. productName x = productName0) (shoppingListExtended s));
          nowRarity = at_index (split_str CHR ''+'' productName0) 1;
          list1 = title_filters env productName0 data;
          list2 = rarity_filters env rarities0 nowRarity list1
      in take 10 (map to_ProdDetail list2))"

section \<open>Stage B: offers\<close>

definition findProductList ::
  "Collaborators \<Rightarrow> Service \<Rightarrow> ProductRequestExtended \<Rightarrow> error + ProdDetail list"
where
  "findProductList env s prodReq =
     (let failure = Inl (Error (''Error while getting product list for '' @ productName prodReq))
      in case axios_get env (PROD_LIST (productName prodReq)) of
           Inr (RutenShipListResponse prodListRes) \<Rightarrow>
             if length prodListRes = 0 then Inr []
             else (case axios_get env (PROD_DETAIL_LIST (join_str '','' prodListRes)) of
                     Inr (RutenProductDetailListResponse data) \<Rightarrow>
                       Inr (filterProdDetail env s data (productName prodReq))
                   | _ \<Rightarrow> failure)
         | _ \<Rightarrow> failure)"

definition new_product :: "ProdDetail \<Rightarrow> ShopProduct" where
  "new_product prodDetail =
     \<lparr> product_id = detail_id prodDetail, product_price = price prodDetail,
       product_qtl = qtl prodDetail \<rparr>"

text \<open>Shops are values here, so the deep clone of the shop found is the shop itself.\<close>

definition addOrUpdateShop ::
  "Service \<Rightarrow> ProductRequestExtended \<Rightarrow> ProdDetail \<Rightarrow> int \<times> Shop"
where
  "addOrUpdateShop s prodReq prodDetail =
     (let idx = findIndex (\<lambda>x. shop_id x = shopId prodDetail) (shopList s)
      in if idx = -1
         then (idx,
               \<lparr> shop_id = shopId prodDetail,
                 products = [(productName prodReq, new_product prodDetail)],
                 shipPrices = extractShipPrices (deliver_way prodDetail),
                 freeShip = [] \<rparr>)
         else (let shop = shopList s ! nat idx
               in (idx,
                   shop\<lparr>products :=
                          AList.update (productName prodReq) (new_product prodDetail)
                            (products shop)\<rparr>)))"

text \<open>The body of the inner loop of \<open>getShopList\<close>: push when the index is
  \<open>-1\<close>, else replace at the index (which \<open>findIndex\<close> found inside the list).\<close>

definition add_detail :: "Service \<Rightarrow> ProductRequestExtended \<Rightarrow> ProdDetail \<Rightarrow> Service" where
  "add_detail s prodReq prodDetail =
     (case addOrUpdateShop s prodReq prodDetail of
        (idx, shop) \<Rightarrow>
          if idx = -1 then s\<lparr>shopList := shopList s @ [shop]\<rparr>
          else s\<lparr>shopList := (shopList s)[nat idx := shop]\<rparr>)"

fun add_details :: "Service \<Rightarrow> ProductRequestExtended \<Rightarrow> ProdDetail list \<Rightarrow> Service" where
  "add_details s prodReq [] = s"
| "add_details s prodReq (prodDetail # rest) =
     add_details (add_detail s prodReq prodDetail) prodReq rest"

text \<open>The outer loop: one \<open>try\<close> per item, the error is pushed and the loop goes on.\<close>

fun discover_offers ::
  "Collaborators \<Rightarrow> Service \<Rightarrow> ProductRequestExtended list \<Rightarrow> Service"
where
  "discover_offers env s [] = s"
| "discover_offers env s (prodReq # rest) =
     discover_offers env
       (case findProductList env s prodReq of
          Inr prodList \<Rightarrow> add_details s prodReq prodList
        | Inl e \<Rightarrow> s\<lparr>errorHandler := errorHandler s @ [e]\<rparr>)
       rest"

section \<open>Stage C: other products of a shop\<close>

definition getShopId :: "Collaborators \<Rightarrow> string \<Rightarrow> error + string" where
  "getShopId env shopName =
     (case axios_get env (SHOP_INFO shopName) of
        Inr (RutenStoreDetailResponse user_id) \<Rightarrow> Inr user_id
      | _ \<Rightarrow> Inl (Error (''Error while getting product list for '' @ shopName)))"

definition getShopOtherProductInfo ::
  "Collaborators \<Rightarrow> string \<Rightarrow> string \<Rightarrow> error + ShopProduct"
where
  "getShopOtherProductInfo env shopId0 targetProduct =
     (let failure = Inl (Error (''Error while getting other product info for '' @ shopId0
                                @ '' '' @ targetProduct));
          nothing = Inr \<lparr> product_id = [], product_price = 0, product_qtl = 0 \<rparr>
      in case axios_get env (SHOP_PROD_LIST shopId0 50 targetProduct) of
           Inr (RutenShipListResponse prodInfoRes) \<Rightarrow>
             (case prodInfoRes of
                [] \<Rightarrow> nothing
              | prod_id # _ \<Rightarrow>
                  if prod_id = [] then nothing
                  else (case axios_get env (PROD_DETAIL_LIST prod_id) of
                          Inr (RutenProductDetailListResponse (prodDetailRes # _)) \<Rightarrow>
                            Inr \<lparr> product_id = item_id prodDetailRes,
                                  product_price = goods_price prodDetailRes,
                                  product_qtl = num prodDetailRes \<rparr>
                        | _ \<Rightarrow> failure))
         | _ \<Rightarrow> failure)"

text \<open>
  The inner loop of \<open>findShopHasAnotherProduct\<close> over the missing products of the shop
  at \<open>idx\<close>, on the cloned shop list and the error accumulator. The assignment is inside
  the \<open>try\<close>: at an index outside the clone it throws, and the error is pushed.
\<close>

fun add_other_products :: "Collaborators \<Rightarrow> string \<Rightarrow> nat \<Rightarrow> string list
    \<Rightarrow> Shop list \<times> error list \<Rightarrow> Shop list \<times> error list" where
  "add_other_products env sellerId idx [] st = st"
| "add_other_products env sellerId idx (prodReq # rest) (shops, errs) =
     add_other_products env sellerId idx rest
       (case getShopOtherProductInfo env sellerId prodReq of
          Inl e \<Rightarrow> (shops, errs @ [e])
        | Inr prodDetail \<Rightarrow>
            if product_id prodDetail \<noteq> []
            then (if idx < length shops
                  then (shops[idx := (shops ! idx)
                                \<lparr>products := AList.update prodReq prodDetail
                                               (products (shops ! idx))\<rparr>],
                        errs)
                  else (shops, errs @ [TypeError]))
            else (shops, errs))"

text \<open>The products the shop named \<open>shopName\<close> lacks, read from \<open>this.shopList\<close> and
  \<open>this.shoppingList\<close>.\<close>

definition targetProduct_of :: "Service \<Rightarrow> string \<Rightarrow> string list" where
  "targetProduct_of s shopName =
     (let shopHasProdList =
            (case find (\<lambda>x. shop_id x = shopName) (shopList s) of
               None \<Rightarrow> []
             | Some x \<Rightarrow> obj_keys (products x))
      in filter (\<lambda>x. x \<notin> set shopHasProdList) (map productName (shoppingList s)))"

text \<open>The body of the outer loop for the entry \<open>[idx, shop]\<close>: a failure of
  \<open>getShopId\<close> is pushed and the loop continues with the next shop. The delay that
  opens the body passes time and nothing else.\<close>

definition probe_shop :: "Collaborators \<Rightarrow> Service \<Rightarrow> nat \<times> SopIdList
    \<Rightarrow> Shop list \<times> error list \<Rightarrow> Shop list \<times> error list" where
  "probe_shop env s entry st =
     (case (entry, st) of
        ((idx, shop), (shops, errs)) \<Rightarrow>
          (case getShopId env (sop_name shop) of
             Inl e \<Rightarrow> (shops, errs @ [e])
           | Inr sellerId \<Rightarrow>
               add_other_products env sellerId idx (targetProduct_of s (sop_name shop))
                 (shops, errs)))"

fun probe_shops :: "Collaborators \<Rightarrow> Service \<Rightarrow> (nat \<times> SopIdList) list
    \<Rightarrow> Shop list \<times> error list \<Rightarrow> Shop list \<times> error list" where
  "probe_shops env s [] st = st"
| "probe_shops env s (entry # rest) st = probe_shops env s rest (probe_shop env s entry st)"

text \<open>Returns the new shop list, and the service with its accumulator extended.\<close>

definition findShopHasAnotherProduct ::
  "Collaborators \<Rightarrow> Service \<Rightarrow> SopIdList list \<Rightarrow> Shop list \<times> Service"
where
  "findShopHasAnotherProduct env s shopIdList =
     (case probe_shops env s (enumerate 0 shopIdList) (shopList s, errorHandler s) of
        (shops, errs) \<Rightarrow> (shops, s\<lparr>errorHandler := errs\<rparr>))"

section \<open>Stage D: free shipping\<close>

text \<open>\<open>this.shopList[shopIdx].shipPrices\<close> throws when there is no shop at the index.\<close>

definition setDefaultFreeShip :: "Service \<Rightarrow> nat \<Rightarrow> error + int obj" where
  "setDefaultFreeShip s shopIdx =
     (case at_index (shopList s) shopIdx of
        None \<Rightarrow> Inl TypeError
      | Some shop \<Rightarrow> Inr [(first_key (shipPrices shop), 99999)])"

text \<open>The loop of \<open>getShipInfo\<close> over the discount conditions.\<close>

definition freeShip_of :: "int obj \<Rightarrow> int obj" where
  "freeShip_of discount_conditions =
     fold (\<lambda>(freeShipType, arrival_amount) freeShip0.
             if includes_str ''SEVEN'' freeShipType \<or> includes_str ''FAMILY'' freeShipType
                \<or> includes_str ''HILIFE'' freeShipType
             then AList.update freeShipType arrival_amount freeShip0
             else freeShip0)
          discount_conditions []"

text \<open>The \<open>try\<close> block of \<open>getShipInfo\<close>: \<open>Inl\<close> is what its \<open>catch\<close> receives.\<close>

definition getShipInfo_try :: "Collaborators \<Rightarrow> Service \<Rightarrow> Shop \<Rightarrow> nat \<Rightarrow> error + int obj"
where
  "getShipInfo_try env s shop idx =
     (case axios_get env (SHOP_SHIP_INFO (shop_id shop)) of
        Inl e \<Rightarrow> Inl e
      | Inr (ShipInfoResponse discount_conditions) \<Rightarrow>
          (let freeShip0 = freeShip_of discount_conditions
           in if length (obj_keys freeShip0) = 0 then setDefaultFreeShip s idx
              else Inr freeShip0)
      | Inr _ \<Rightarrow> Inl TypeError)"

text \<open>The promise of \<open>getShipInfo\<close>: \<open>Inr\<close> fulfilled, \<open>Inl\<close> rejected.\<close>

definition getShipInfo ::
  "Collaborators \<Rightarrow> Service \<Rightarrow> Shop \<Rightarrow> nat \<Rightarrow> (error + int obj) \<times> Service"
where
  "getShipInfo env s shop idx =
     (case getShipInfo_try env s shop idx of
        Inr freeShip0 \<Rightarrow> (Inr freeShip0, s)
      | Inl _ \<Rightarrow>
          (let s' = s\<lparr>errorHandler := errorHandler s
                        @ [Text (''Error while getting ships info for '' @ shop_id shop)]\<rparr>
           in (setDefaultFreeShip s' idx, s')))"

text \<open>
  \<open>Promise.allSettled\<close> over the shops with their indices. The requests are in flight
  together; no call writes what another reads, except the order of their pushes on the
  accumulator, which is taken here in index order.
\<close>

fun ship_info_all :: "Collaborators \<Rightarrow> (nat \<times> Shop) list \<Rightarrow> Service
    \<Rightarrow> (error + int obj) list \<times> Service" where
  "ship_info_all env [] s = ([], s)"
| "ship_info_all env ((idx, shop) # rest) s =
     (case getShipInfo env s shop idx of
        (result, s') \<Rightarrow>
          (case ship_info_all env rest s' of
             (results, s'') \<Rightarrow> (result # results, s'')))"

text \<open>\<open>this.shopList[idx].freeShip = v\<close>.\<close>

definition set_freeShip :: "Service \<Rightarrow> nat \<Rightarrow> int obj \<Rightarrow> error + Service" where
  "set_freeShip s idx v =
     (case at_index (shopList s) idx of
        None \<Rightarrow> Inl TypeError
      | Some shop \<Rightarrow> Inr (s\<lparr>shopList := (shopList s)[idx := shop\<lparr>freeShip := v\<rparr>]\<rparr>))"

text \<open>The \<open>forEach\<close> over the settled results; \<open>Some e\<close> when the callback throws.\<close>

fun apply_ship_results :: "(nat \<times> (error + int obj)) list \<Rightarrow> Service
    \<Rightarrow> error option \<times> Service" where
  "apply_ship_results [] s = (None, s)"
| "apply_ship_results ((idx, result) # rest) s =
     (case result of
        Inr v \<Rightarrow>
          (case set_freeShip s idx v of
             Inl e \<Rightarrow> (Some e, s)
           | Inr s' \<Rightarrow> apply_ship_results rest s')
      | Inl reason \<Rightarrow>
          (case setDefaultFreeShip s idx of
             Inl e \<Rightarrow> (Some e, s)
           | Inr v \<Rightarrow>
               (case set_freeShip s idx v of
                  Inl e \<Rightarrow> (Some e, s)
                | Inr s' \<Rightarrow>
                    apply_ship_results rest
                      (s'\<lparr>errorHandler := errorHandler s' @ [reason]\<rparr>))))"

section \<open>The run\<close>

text \<open>The states of the service at the end of stages B, C and the fan-out of D, for
  resolved requests \<open>ext\<close>.\<close>

definition stage_B :: "Collaborators \<Rightarrow> Service \<Rightarrow> ProductRequestExtended list \<Rightarrow> Service"
where
  "stage_B env s ext = discover_offers env (s\<lparr>shoppingListExtended := ext\<rparr>) ext"

definition stage_C :: "Collaborators \<Rightarrow> Service \<Rightarrow> Service" where
  "stage_C env s =
     (let shopIdList = map (\<lambda>x. \<lparr> sop_name = shop_id x, sop_id = [] \<rparr>) (shopList s)
      in case findShopHasAnotherProduct env s shopIdList of
           (shops, s') \<Rightarrow> s'\<lparr>shopList := shops\<rparr>)"

definition stage_D :: "Collaborators \<Rightarrow> Service \<Rightarrow> error option \<times> Service" where
  "stage_D env s =
     (case ship_info_all env (enumerate 0 (shopList s)) s of
        (shopResults, s') \<Rightarrow> apply_ship_results (enumerate 0 shopResults) s')"

text \<open>The promise of \<open>getShopList\<close> and the service after the call.\<close>

definition getShopList :: "Collaborators \<Rightarrow> Service \<Rightarrow> (error + Shop list) \<times> Service" where
  "getShopList env s =
     (case getProductRequestExtended env s of
        Inl e \<Rightarrow> (Inr [], s\<lparr>errorHandler := errorHandler s @ [e]\<rparr>)
      | Inr ext \<Rightarrow>
          (case stage_D env (stage_C env (stage_B env s ext)) of
             (Some e, s') \<Rightarrow> (Inl e, s')
           | (None, s') \<Rightarrow> (Inr (shopList s'), s')))"

section \<open>Notions used in the statements\<close>

text \<open>The entries of a listing's fee mapping that pass the test of \<open>extractShipPrices\<close>,
  each under the key the code computes, in the order of the mapping.\<close>

definition retained :: "int obj \<Rightarrow> int obj" where
  "retained deliverWay =
     map (\<lambda>(way, fee). (carrier_key way, fee))
       (filter (\<lambda>(way, fee). carrier_test way) deliverWay)"

text \<open>
  The claim's reading of the carrier keys, in its own words and apart from the code: a
  key matches a recognised code when it is \<open>SEVEN\<close>, \<open>FAMI\<close> or \<open>HILIFE\<close>, alone
  or with the suffix \<open>_COD\<close>; it is normalised by dropping that suffix and by writing
  the canonical name \<open>FAMILY\<close> for the alias \<open>FAMI\<close>.
\<close>

definition drop_COD_suffix :: "string \<Rightarrow> string" where
  "drop_COD_suffix way =
     (if suffix ''_COD'' way then take (length way - 4) way else way)"

definition claimed_carrier :: "string \<Rightarrow> bool" where
  "claimed_carrier way \<longleftrightarrow>
     drop_COD_suffix way = ''SEVEN'' \<or> drop_COD_suffix way = ''FAMI''
     \<or> drop_COD_suffix way = ''HILIFE''"

definition claimed_key :: "string \<Rightarrow> string" where
  "claimed_key way =
     (if drop_COD_suffix way = ''FAMI'' then ''FAMILY'' else drop_COD_suffix way)"

text \<open>A title passes the rarity stage: the guard of the loop is off, or the heuristic
  accepts the title against every known rarity other than the requested one.\<close>

definition rarity_ok ::
  "Collaborators \<Rightarrow> string list option \<Rightarrow> string option \<Rightarrow> string \<Rightarrow> bool" where
  "rarity_ok env rarities0 nowRarity title =
     (case (rarities0, nowRarity) of
        (Some rs, Some now) \<Rightarrow>
          now = [] \<or>
          (\<forall>rar \<in> set rs. rar = now \<or> notContainsAnotherRarity env title rar (length rs))
      | _ \<Rightarrow> True)"

text \<open>Stage A finds a card for the item: the query neither fails nor comes back empty.\<close>

definition card_found :: "Collaborators \<Rightarrow> ProductRequest \<Rightarrow> bool" where
  "card_found env x =
     (case find_cards env (hd (split_str CHR ''+'' (productName x)))
             (at_index (split_str CHR ''+'' (productName x)) 1) of
        Inr (cardData # _) \<Rightarrow> True
      | _ \<Rightarrow> False)"

text \<open>The request for a shop's shipping discounts fails: the client rejects, or the
  payload is not a shipping-discount response.\<close>

definition fetch_failed :: "Collaborators \<Rightarrow> string \<Rightarrow> bool" where
  "fetch_failed env shopName =
     (case axios_get env (SHOP_SHIP_INFO shopName) of
        Inr (ShipInfoResponse discount_conditions) \<Rightarrow> False
      | _ \<Rightarrow> True)"

text \<open>The recognised free-shipping entries that the endpoint gives for a shop; none
  when the request fails.\<close>

definition fetched_freeShip :: "Collaborators \<Rightarrow> string \<Rightarrow> int obj" where
  "fetched_freeShip env shopName =
     (case axios_get env (SHOP_SHIP_INFO shopName) of
        Inr (ShipInfoResponse discount_conditions) \<Rightarrow> freeShip_of discount_conditions
      | _ \<Rightarrow> [])"

text \<open>The free-shipping mapping a shop ends Stage D with: the recognised entries, or
  the single entry of the fallback when there is none.\<close>

definition settled_freeShip :: "Collaborators \<Rightarrow> Shop \<Rightarrow> int obj" where
  "settled_freeShip env shop =
     (if fetched_freeShip env (shop_id shop) = []
      then [(first_key (shipPrices shop), 99999)]
      else fetched_freeShip env (shop_id shop))"

text \<open>The strings that Stage D pushes, one per shop whose request fails.\<close>

definition ship_errors :: "Collaborators \<Rightarrow> Shop list \<Rightarrow> error list" where
  "ship_errors env shops =
     map (\<lambda>shop. Text (''Error while getting ships info for '' @ shop_id shop))
       (filter (\<lambda>shop. fetch_failed env (shop_id shop)) shops)"

text \<open>A shop list covers an offer: it has a shop with the offer's shop id that holds a
  product entry under the product's name.\<close>

definition stocks :: "Shop list \<Rightarrow> string \<Rightarrow> string \<Rightarrow> bool" where
  "stocks shops shopName productName0 \<longleftrightarrow>
     (\<exists>shop \<in> set shops. shop_id shop = shopName
        \<and> productName0 \<in> set (obj_keys (products shop)))"

text \<open>A shop list holds an offer under a product's name: it has a shop with the offer's
  shop id whose entry under that name is the offer's id, price and quantity.\<close>

definition holds_offer :: "Shop list \<Rightarrow> string \<Rightarrow> ProdDetail \<Rightarrow> bool" where
  "holds_offer shops productName0 d \<longleftrightarrow>
     (\<exists>shop \<in> set shops. shop_id shop = shopId d
        \<and> map_of (products shop) productName0
            = Some \<lparr> product_id = detail_id d, product_price = price d,
                     product_qtl = qtl d \<rparr>)"

text \<open>The entry that the cross-sell probe attaches to a shop for a product: the detail
  of the top result, when the two requests succeed and the detail has an id.\<close>

definition found_product :: "Collaborators \<Rightarrow> string \<Rightarrow> string \<Rightarrow> ShopProduct option" where
  "found_product env sellerId productName0 =
     (case getShopOtherProductInfo env sellerId productName0 of
        Inr prodDetail \<Rightarrow> if product_id prodDetail \<noteq> [] then Some prodDetail else None
      | Inl e \<Rightarrow> None)"

text \<open>What Stage C does for one shop, from \<open>shop\<close> to \<open>shop'\<close> with the errors
  \<open>errs\<close> pushed so far. When the seller id does not resolve, the shop is as it was
  and the error is pushed. When it resolves, the products of the shop are as they were,
  but for the missing products that the probe finds; the error of every missing product
  whose probe fails is pushed.\<close>

definition probed :: "Collaborators \<Rightarrow> Service \<Rightarrow> Shop \<Rightarrow> Shop \<Rightarrow> error list \<Rightarrow> bool" where
  "probed env s shop shop' errs \<longleftrightarrow>
     (case getShopId env (shop_id shop) of
        Inl e \<Rightarrow> shop' = shop \<and> e \<in> set errs
      | Inr sellerId \<Rightarrow>
          (\<forall>k. map_of (products shop') k
                = (if k \<in> set (targetProduct_of s (shop_id shop))
                   then (case found_product env sellerId k of
                           Some d \<Rightarrow> Some d
                         | None \<Rightarrow> map_of (products shop) k)
                   else map_of (products shop) k))
          \<and> (\<forall>q \<in> set (targetProduct_of s (shop_id shop)). \<forall>e.
                getShopOtherProductInfo env sellerId q = Inl e \<longrightarrow> e \<in> set errs))"

section \<open>A sample marketplace\<close>

text \<open>
  Two cards are on file. The search for \<open>1+UR\<close>, in either case of the rarity,
  finds three listings, of shops A, B
  and C, the second with the other rarity in its title; the search for \<open>1+SR\<close> finds
  the listing of shop B, which ships by post only; the search for \<open>2+SR\<close> fails. Shop A
  resolves to a seller and also sells \<open>2+SR\<close>; shop C does not resolve. Shop A has a
  free-shipping threshold for one carrier, shop C none, and the request for shop B fails.
\<close>

definition sample_cards :: "string \<Rightarrow> string option \<Rightarrow> error + CardsDataType list" where
  "sample_cards cid rarity =
     (if cid = ''1''
      then Inr [\<lparr> card_rarity = [''UR'', ''SR''], name_of_card = ''X'',
                  number_of_card = ''001'' \<rparr>]
      else if cid = ''2''
      then Inr [\<lparr> card_rarity = [''SR''], name_of_card = ''Y'', number_of_card = ''002'' \<rparr>]
      else Inr [])"

definition listing1 :: RutenProductDetail where
  "listing1 = \<lparr> item_name = ''X UR'', goods_price = 50, num = 2, item_id = ''L1'',
                user = ''shopA'',
                item_deliver_way = [(''SEVEN'', 60), (''POST'', 80), (''FAMI_COD'', 65)] \<rparr>"

definition listing2 :: RutenProductDetail where
  "listing2 = \<lparr> item_name = ''X SR'', goods_price = 55, num = 1, item_id = ''L2'',
                user = ''shopB'', item_deliver_way = [(''POST'', 80)] \<rparr>"

definition listing3 :: RutenProductDetail where
  "listing3 = \<lparr> item_name = ''X UR'', goods_price = 60, num = 1, item_id = ''L3'',
                user = ''shopC'', item_deliver_way = [(''HILIFE'', 45)] \<rparr>"

definition listing9 :: RutenProductDetail where
  "listing9 = \<lparr> item_name = ''Y SR'', goods_price = 30, num = 4, item_id = ''L9'',
                user = ''shopA'', item_deliver_way = [] \<rparr>"

fun sample_get :: "RutenApis \<Rightarrow> error + Response" where
  "sample_get (PROD_LIST q) =
     (if q = ''1+UR'' \<or> q = ''1+ur'' then Inr (RutenShipListResponse [''L1'', ''L2'', ''L3''])
      else if q = ''1+SR'' then Inr (RutenShipListResponse [''L2''])
      else if q = ''2+SR'' then Inl (Rejected ''timeout'')
      else Inr (RutenShipListResponse []))"
| "sample_get (PROD_DETAIL_LIST ids) =
     (if ids = ''L1,L2,L3''
      then Inr (RutenProductDetailListResponse [listing1, listing2, listing3])
      else if ids = ''L2'' then Inr (RutenProductDetailListResponse [listing2])
      else if ids = ''L9'' then Inr (RutenProductDetailListResponse [listing9])
      else Inl (Rejected ''404''))"
| "sample_get (SHOP_INFO shopName) =
     (if shopName = ''shopA'' then Inr (RutenStoreDetailResponse ''sellerA'')
      else Inl (Rejected ''404''))"
| "sample_get (SHOP_PROD_LIST seller limit q) =
     (if seller = ''sellerA'' \<and> q = ''2+SR'' then Inr (RutenShipListResponse [''L9''])
      else Inl (Rejected ''503''))"
| "sample_get (SHOP_SHIP_INFO shopName) =
     (if shopName = ''shopA'' then Inr (ShipInfoResponse [(''SEVEN'', 1000), (''POST'', 500)])
      else if shopName = ''shopC'' then Inr (ShipInfoResponse [(''POST'', 500)])
      else Inl (Rejected ''503''))"

definition sample_env :: Collaborators where
  "sample_env =
     \<lparr> find_cards = sample_cards,
       axios_get = sample_get,
       containsAllKeywords = (\<lambda>title productName0. includes_str ''X'' title),
       isIllegalProductChar = (\<lambda>title. \<not> includes_str ''?'' title),
       isFanMode = (\<lambda>title. \<not> includes_str ''fan'' title),
       isUnopenedPackProduct = (\<lambda>title. \<not> includes_str ''pack'' title),
       notContainsAnotherRarity = (\<lambda>title rar n. \<not> includes_str rar title) \<rparr>"

text \<open>A shopping list, its resolved form, and the service between stages A and B.\<close>

definition sample_requests :: "ProductRequest list" where
  "sample_requests =
     [\<lparr>productName = ''1+UR'', count = 5\<rparr>, \<lparr>productName = ''2+SR'', count = 2\<rparr>]"

definition sample_extended :: "ProductRequestExtended list" where
  "sample_extended =
     [\<lparr>productName = ''1+UR'', count = 3, rarities = [''UR'', ''SR''], card_id = ''1'',
        card_name = ''X'', card_number = ''001''\<rparr>,
      \<lparr>productName = ''2+SR'', count = 2, rarities = [''SR''], card_id = ''2'',
        card_name = ''Y'', card_number = ''002''\<rparr>]"

definition sample_service :: Service where
  "sample_service = (constructor sample_requests)\<lparr>shoppingListExtended := sample_extended\<rparr>"

text \<open>The two shops of the run over the sample list, as they are returned.\<close>

definition shopA_final :: Shop where
  "shopA_final =
     \<lparr> shop_id = ''shopA'',
       products = [(''1+UR'', \<lparr>product_id = ''L1'', product_price = 50, product_qtl = 2\<rparr>),
                   (''2+SR'', \<lparr>product_id = ''L9'', product_price = 30, product_qtl = 4\<rparr>)],
       shipPrices = [(''SEVEN'', 60), (''FAMILY'', 65)],
       freeShip = [(''SEVEN'', 1000)] \<rparr>"

definition shopC_final :: Shop where
  "shopC_final =
     \<lparr> shop_id = ''shopC'',
       products = [(''1+UR'', \<lparr>product_id = ''L3'', product_price = 60, product_qtl = 1\<rparr>)],
       shipPrices = [(''HILIFE'', 45)],
       freeShip = [(''HILIFE'', 99999)] \<rparr>"

text \<open>Shop B, found through its listing that ships by post only, as the run over the
  one-item list \<open>1+SR\<close> returns it.\<close>

definition shopB_final :: Shop where
  "shopB_final =
     \<lparr> shop_id = ''shopB'',
       products = [(''1+SR'', \<lparr>product_id = ''L2'', product_price = 55, product_qtl = 1\<rparr>)],
       shipPrices = [],
       freeShip = [(''undefined'', 99999)] \<rparr>"

text \<open>A service between stages B and C: three products are wanted, shops A and C were
  found through the first. The probe of shop A for the third product fails.\<close>

definition sample_found_shops :: Service where
  "sample_found_shops =
     \<lparr> shoppingList = [\<lparr>productName = ''1+UR'', count = 3\<rparr>,
                       \<lparr>productName = ''2+SR'', count = 2\<rparr>,
                       \<lparr>productName = ''9+ZZ'', count = 1\<rparr>],
       shoppingListExtended = [],
       shopList = [shopA_final\<lparr>products := [(''1+UR'', \<lparr>product_id = ''L1'',
                                  product_price = 50, product_qtl = 2\<rparr>)],
                                freeShip := []\<rparr>,
                   shopC_final\<lparr>freeShip := []\<rparr>],
       errorHandler = [] \<rparr>"

section \<open>Strings, arrays and objects: basic facts\<close>

lemma split_str_not_Nil: "split_str sep s \<noteq> []"
  by (induction s) (auto simp: Let_def)

lemma update_fresh: "k \<notin> fst ` set al \<Longrightarrow> AList.update k v al = al @ [(k, v)]"
  by (induction al) auto

lemma fold_update_distinct:
  "distinct (map fst kvs) \<Longrightarrow> fst ` set kvs \<inter> fst ` set acc = {} \<Longrightarrow>
   fold (\<lambda>(k, v). AList.update k v) kvs acc = acc @ kvs"
proof (induction kvs arbitrary: acc)
  case Nil
  then show ?case by simp
next
  case (Cons kv kvs)
  obtain k v where kv: "kv = (k, v)" by (cases kv)
  from Cons.prems have fresh: "k \<notin> fst ` set acc" by (auto simp: kv)
  have "fst ` set kvs \<inter> fst ` set (acc @ [(k, v)]) = {}"
    using Cons.prems by (auto simp: kv)
  moreover have "distinct (map fst kvs)" using Cons.prems by simp
  ultimately have
    "fold (\<lambda>(k, v). AList.update k v) kvs (acc @ [(k, v)]) = (acc @ [(k, v)]) @ kvs"
    by (rule Cons.IH[rotated])
  then show ?case by (simp add: kv update_fresh[OF fresh])
qed

lemma map_of_fold_update:
  "map_of (fold (\<lambda>(k, v). AList.update k v) kvs acc) = map_of acc ++ map_of (rev kvs)"
  by (induction kvs arbitrary: acc)
     (auto simp: AList.update_conv' fun_eq_iff map_add_def split: option.splits)

section \<open>The purchase limit\<close>

lemma resolve_cards_fields:
  "resolve_cards env l = Inr ext \<Longrightarrow>
   map productName ext = map productName l \<and> map count ext = map count l"
proof (induction l arbitrary: ext)
  case Nil
  then show ?case by simp
next
  case (Cons x l)
  then show ?case
    by (auto simp: Let_def split: sum.splits list.splits)
qed

text \<open>
  Claim C6. The constructor keeps the list's length and order and every product name,
  and replaces each count by 3 when it exceeds 3 and leaves it as it is otherwise; the
  extended requests that Stage A hands to the later stages carry these names and counts.
\<close>

theorem constructor_clamps_count:
  "map productName (shoppingList (constructor l)) = map productName l
   \<and> map count (shoppingList (constructor l)) = map (\<lambda>x. if 3 < count x then 3 else count x) l
   \<and> length (shoppingList (constructor l)) = length l
   \<and> (getProductRequestExtended env (constructor l) = Inr ext \<longrightarrow>
        map productName ext = map productName l
        \<and> map count ext = map (\<lambda>x. if 3 < count x then 3 else count x) l)"
proof -
  have names: "map productName (shoppingList (constructor l)) = map productName l"
    by (simp add: constructor_def comp_def)
  have counts: "map count (shoppingList (constructor l))
                = map (\<lambda>x. if 3 < count x then 3 else count x) l"
    by (auto simp: constructor_def)
  have ext: "map productName ext = map productName l
             \<and> map count ext = map (\<lambda>x. if 3 < count x then 3 else count x) l"
    if "getProductRequestExtended env (constructor l) = Inr ext"
  proof -
    from that have "resolve_cards env (map extend_request (shoppingList (constructor l))) = Inr ext"
      by (simp add: getProductRequestExtended_def)
    from resolve_cards_fields[OF this]
    have "map productName ext = map productName (shoppingList (constructor l))"
      and "map count ext = map count (shoppingList (constructor l))"
      by (simp_all add: comp_def extend_request_def)
    with names counts show ?thesis by simp
  qed
  from names counts ext show ?thesis by (simp add: constructor_def)
qed

theorem constructor_clamps_count_witness:
  "getProductRequestExtended sample_env (constructor sample_requests) = Inr sample_extended
   \<and> map count sample_requests = [5, 2]
   \<and> map count (shoppingList (constructor sample_requests)) = [3, 2]
   \<and> map count sample_extended = [3, 2]"
proof -
  have run: "getProductRequestExtended sample_env (constructor sample_requests)
             = Inr sample_extended"
    by (simp add: getProductRequestExtended_def constructor_def extend_request_def
          sample_requests_def sample_extended_def sample_env_def sample_cards_def
          at_index_def Let_def)
  have given: "map count sample_requests = [5, 2]"
    by (simp add: sample_requests_def)
  have clamped: "map (\<lambda>x. if 3 < count x then 3 else count x) sample_requests = [3, 2]"
    by (simp add: sample_requests_def)
  from constructor_clamps_count[of sample_requests sample_env sample_extended] run given
  show ?thesis by (simp add: clamped)
qed

section \<open>Shipping fees of a listing: the retained carriers\<close>

lemma extract_fold:
  "fold (\<lambda>(way, fee) shipPrices.
           if carrier_test way then AList.update (carrier_key way) fee shipPrices
           else shipPrices) dw acc
   = fold (\<lambda>(k, v). AList.update k v)
       (map (\<lambda>(way, fee). (carrier_key way, fee))
          (filter (\<lambda>(way, fee). carrier_test way) dw)) acc"
  by (induction dw arbitrary: acc) auto

lemma retained_keys:
  "map fst (retained dw) = map carrier_key (filter carrier_test (map fst dw))"
  by (induction dw) (auto simp: retained_def)

lemma extract_retained:
  "extractShipPrices dw = fold (\<lambda>(k, v). AList.update k v) (retained dw) []"
  unfolding extractShipPrices_def retained_def by (rule extract_fold)

text \<open>
  Claim C9, as stated, at a mapping that lists a carrier with and without the suffix
  \<open>_COD\<close>: both keys match a recognised code and normalise to the same name, and the
  result holds one entry, with the fee of the later key; the entry of the earlier key,
  with its fee 60, is not returned.
\<close>

theorem extractShipPrices_collision:
  "extractShipPrices [(''SEVEN'', 60), (''SEVEN_COD'', 65)] = [(''SEVEN'', 65)]"
  by (simp add: extractShipPrices_def carrier_test_def carrier_key_def)

lemma claimed_carrier_cases:
  "claimed_carrier way \<longleftrightarrow>
     way \<in> {''SEVEN'', ''FAMI'', ''HILIFE'', ''SEVEN_COD'', ''FAMI_COD'', ''HILIFE_COD''}"
proof (cases "suffix ''_COD'' way")
  case True
  then obtain zs where way: "way = zs @ ''_COD''" by (auto simp: suffix_def)
  then have d: "drop_COD_suffix way = zs" using True by (simp add: drop_COD_suffix_def)
  have e: "zs = c \<longleftrightarrow> way = c @ ''_COD''" for c
    by (simp add: way)
  have plain: "way \<noteq> ''SEVEN''" "way \<noteq> ''FAMI''" "way \<noteq> ''HILIFE''"
    using True by (auto simp: suffix_to_prefix)
  have "claimed_carrier way \<longleftrightarrow>
          way = ''SEVEN'' @ ''_COD'' \<or> way = ''FAMI'' @ ''_COD'' \<or> way = ''HILIFE'' @ ''_COD''"
    unfolding claimed_carrier_def d e ..
  with plain show ?thesis by simp
next
  case False
  then have d: "drop_COD_suffix way = way" by (simp add: drop_COD_suffix_def)
  have "suffix ''_COD'' ''SEVEN_COD''" "suffix ''_COD'' ''FAMI_COD''"
    "suffix ''_COD'' ''HILIFE_COD''"
    by (simp_all add: suffix_to_prefix)
  with False have "way \<noteq> ''SEVEN_COD''" "way \<noteq> ''FAMI_COD''" "way \<noteq> ''HILIFE_COD''"
    by auto
  then show ?thesis by (simp add: claimed_carrier_def d)
qed

lemma claimed_carrier_code:
  assumes "claimed_carrier way"
  shows "carrier_test way" and "carrier_key way = claimed_key way"
proof -
  from assms have "way \<in> {''SEVEN'', ''FAMI'', ''HILIFE'', ''SEVEN_COD'', ''FAMI_COD'', ''HILIFE_COD''}"
    by (simp only: claimed_carrier_cases)
  then consider "way = ''SEVEN''" | "way = ''FAMI''" | "way = ''HILIFE''"
    | "way = ''SEVEN_COD''" | "way = ''FAMI_COD''" | "way = ''HILIFE_COD''"
    by blast
  then have "carrier_test way \<and> carrier_key way = claimed_key way"
    by cases
       (simp_all add: carrier_test_def carrier_key_def claimed_key_def drop_COD_suffix_def
          suffix_to_prefix)
  then show "carrier_test way" and "carrier_key way = claimed_key way" by simp_all
qed


lemma retained_claimed:
  assumes "\<forall>way \<in> set (obj_keys dw).
             claimed_carrier way
             \<or> \<not> (includes_str ''SEVEN'' way \<or> includes_str ''FAMI'' way
                    \<or> includes_str ''HILIFE'' way)"
  shows "retained dw
         = map (\<lambda>(way, fee). (claimed_key way, fee))
             (filter (\<lambda>(way, fee). claimed_carrier way) dw)"
  using assms
proof (induction dw)
  case Nil
  then show ?case by (simp add: retained_def)
next
  case (Cons entry dw)
  obtain way fee where entry: "entry = (way, fee)" by (cases entry)
  from Cons.prems have rest: "\<forall>way \<in> set (obj_keys dw).
             claimed_carrier way
             \<or> \<not> (includes_str ''SEVEN'' way \<or> includes_str ''FAMI'' way
                    \<or> includes_str ''HILIFE'' way)"
    by simp
  note IH = Cons.IH[OF rest]
  show ?case
  proof (cases "claimed_carrier way")
    case True
    from claimed_carrier_code[OF True] IH True show ?thesis
      by (simp add: retained_def entry)
  next
    case False
    with Cons.prems have "\<not> carrier_test way"
      by (simp add: entry carrier_test_def)
    with IH False show ?thesis by (simp add: retained_def entry)
  qed
qed

text \<open>
  Claim C9, amended. Take a fee mapping in which every key that contains one of the three
  carrier codes (\<open>SEVEN\<close>, \<open>FAMI\<close>, \<open>HILIFE\<close>) is such a code, alone or followed
  by the suffix \<open>_COD\<close>. The entries retained are those with such a key, each key
  normalised by dropping the suffix \<open>_COD\<close> and merging the alias \<open>FAMI\<close> into
  \<open>FAMILY\<close>; every other key is dropped. The result holds, under each normalised
  name, the fee of the last retained entry with that name. When no two retained keys
  normalise to the same name, the result is exactly the retained entries, each under its
  normalised key with its fee unchanged, in the order of the mapping.
\<close>

theorem extractShipPrices_codes:
  assumes "\<forall>way \<in> set (obj_keys dw).
             claimed_carrier way
             \<or> \<not> (includes_str ''SEVEN'' way \<or> includes_str ''FAMI'' way
                    \<or> includes_str ''HILIFE'' way)"
  shows "map_of (extractShipPrices dw)
           = map_of (rev (map (\<lambda>(way, fee). (claimed_key way, fee))
                            (filter (\<lambda>(way, fee). claimed_carrier way) dw)))
     \<and> (distinct (map claimed_key (filter claimed_carrier (obj_keys dw))) \<longrightarrow>
          extractShipPrices dw
          = map (\<lambda>(way, fee). (claimed_key way, fee))
              (filter (\<lambda>(way, fee). claimed_carrier way) dw))"
proof -
  let ?kept = "map (\<lambda>(way, fee). (claimed_key way, fee))
                 (filter (\<lambda>(way, fee). claimed_carrier way) dw)"
  note r = retained_claimed[OF assms]
  have last_wins: "map_of (extractShipPrices dw) = map_of (rev ?kept)"
    by (simp add: extract_retained map_of_fold_update r)
  have keys: "obj_keys ?kept = map claimed_key (filter claimed_carrier (obj_keys dw))"
    by (induction dw) auto
  have exact: "extractShipPrices dw = ?kept"
    if "distinct (map claimed_key (filter claimed_carrier (obj_keys dw)))"
  proof -
    from that have "distinct (obj_keys ?kept)" by (simp only: keys)
    then have "fold (\<lambda>(k, v). AList.update k v) ?kept [] = [] @ ?kept"
      by (rule fold_update_distinct) simp
    then show ?thesis by (simp add: extract_retained r)
  qed
  from last_wins exact show ?thesis by blast
qed

theorem extractShipPrices_codes_witness:
  "claimed_carrier ''SEVEN'' \<and> claimed_carrier ''FAMI_COD'' \<and> claimed_carrier ''HILIFE''
   \<and> \<not> claimed_carrier ''POST''
   \<and> claimed_key ''SEVEN'' = ''SEVEN'' \<and> claimed_key ''FAMI_COD'' = ''FAMILY''
   \<and> claimed_key ''HILIFE'' = ''HILIFE''
   \<and> extractShipPrices [(''SEVEN'', 60), (''POST'', 80), (''FAMI_COD'', 65), (''HILIFE'', 45)]
     = [(''SEVEN'', 60), (''FAMILY'', 65), (''HILIFE'', 45)]
   \<and> map_of (extractShipPrices [(''SEVEN'', 60), (''SEVEN_COD'', 65)]) ''SEVEN'' = Some 65"
proof -
  have c: "claimed_carrier ''SEVEN''" "claimed_carrier ''FAMI_COD''" "claimed_carrier ''HILIFE''"
    "claimed_carrier ''SEVEN_COD''" "\<not> claimed_carrier ''POST''"
    by (simp_all add: claimed_carrier_cases)
  have k: "claimed_key ''SEVEN'' = ''SEVEN''" "claimed_key ''FAMI_COD'' = ''FAMILY''"
    "claimed_key ''HILIFE'' = ''HILIFE''" "claimed_key ''SEVEN_COD'' = ''SEVEN''"
    by (simp_all add: claimed_key_def drop_COD_suffix_def suffix_to_prefix)
  have post: "\<not> (includes_str ''SEVEN'' ''POST'' \<or> includes_str ''FAMI'' ''POST''
                \<or> includes_str ''HILIFE'' ''POST'')"
    by simp
  let ?dw = "[(''SEVEN'', 60::int), (''POST'', 80), (''FAMI_COD'', 65), (''HILIFE'', 45)]"
  let ?dw2 = "[(''SEVEN'', 60::int), (''SEVEN_COD'', 65)]"
  have h: "\<forall>way \<in> set (obj_keys ?dw).
             claimed_carrier way
             \<or> \<not> (includes_str ''SEVEN'' way \<or> includes_str ''FAMI'' way
                    \<or> includes_str ''HILIFE'' way)"
    using c post by simp
  have h2: "\<forall>way \<in> set (obj_keys ?dw2).
             claimed_carrier way
             \<or> \<not> (includes_str ''SEVEN'' way \<or> includes_str ''FAMI'' way
                    \<or> includes_str ''HILIFE'' way)"
    using c by simp
  from extractShipPrices_codes[OF h]
  have a: "extractShipPrices ?dw = [(''SEVEN'', 60), (''FAMILY'', 65), (''HILIFE'', 45)]"
    by (simp add: c k)
  from extractShipPrices_codes[OF h2]
  have b: "map_of (extractShipPrices ?dw2) ''SEVEN'' = Some 65"
    by (simp add: c k)
  from c k a b show ?thesis by simp
qed

section \<open>The listing filter\<close>

lemma fold_filter_all:
  "fold (\<lambda>r l. filter (\<lambda>x. Q x r) l) rs l = filter (\<lambda>x. \<forall>r\<in>set rs. Q x r) l"
proof (induction rs arbitrary: l)
  case Nil
  then show ?case by simp
next
  case (Cons r rs)
  have "filter (\<lambda>x. \<forall>r\<in>set rs. Q x r) (filter (\<lambda>x. Q x r) l)
        = filter (\<lambda>x. \<forall>r'\<in>set (r # rs). Q x r') l"
    by (induction l) auto
  with Cons.IH[of "filter (\<lambda>x. Q x r) l"] show ?case by simp
qed

lemma rarity_filters_filter:
  "rarity_filters env rarities0 nowRarity l
   = filter (\<lambda>x. rarity_ok env rarities0 nowRarity (item_name x)) l"
proof (cases rarities0)
  case None
  then show ?thesis by (simp add: rarity_filters_def rarity_ok_def)
next
  case (Some rs)
  note rs = this
  show ?thesis
  proof (cases nowRarity)
    case None
    with rs show ?thesis by (simp add: rarity_filters_def rarity_ok_def)
  next
    case (Some now)
    show ?thesis
    proof (cases "now = []")
      case True
      with rs Some show ?thesis by (simp add: rarity_filters_def rarity_ok_def)
    next
      case False
      have "filter (\<lambda>x. \<forall>r\<in>set (filter (\<lambda>x. x \<noteq> now) rs).
                          notContainsAnotherRarity env (item_name x) r (length rs)) l
            = filter (\<lambda>x. \<forall>rar\<in>set rs. rar = now
                          \<or> notContainsAnotherRarity env (item_name x) rar (length rs)) l"
        by (rule filter_cong) auto
      with rs Some False show ?thesis
        by (cases "rs = []") (simp_all add: rarity_filters_def rarity_ok_def fold_filter_all)
    qed
  qed
qed

lemma subseq_take_self: "subseq (take n xs) xs"
proof -
  have "subseq (take n xs) (take n xs @ drop n xs)"
    by (rule subseq_rev_drop_many) simp
  then show ?thesis by simp
qed

lemma title_filters_filter:
  "title_filters env pn l
   = filter (\<lambda>x. containsAllKeywords env (item_name x) pn
                \<and> isIllegalProductChar env (item_name x) \<and> isFanMode env (item_name x)
                \<and> isUnopenedPackProduct env (item_name x)) l"
  by (induction l) (auto simp: title_filters_def)

lemma sample_find: "find (\<lambda>x. productName x = ''1+UR'') (shoppingListExtended sample_service) = Some (hd sample_extended)"
  by (simp add: sample_service_def sample_extended_def)

lemma sample_now: "at_index (split_str CHR ''+'' ''1+UR'') 1 = Some ''UR''"
  by (simp add: at_index_def)

text \<open>
  Claim C7. The result of \<open>filterProdDetail\<close> has at most 10 listings. It is the first
  10, in the order of the response, of the listings that survive five filters applied one
  after the other, each to what the one before left: keyword containment, the
  illegal-character test, the fan-made test, the unopened-pack test, and last the rarity
  stage. (The four title tests are the imported heuristics, kept where they answer true.)
  Each survivor is returned as the record of its price, quantity, id, shop and shipping
  fees.
\<close>

theorem filterProdDetail_pipeline:
  "filterProdDetail env s data pn
    = map (\<lambda>x. \<lparr> price = goods_price x, qtl = num x, detail_id = item_id x,
                   shopId = user x, deliver_way = item_deliver_way x \<rparr>)
        (take 10
          (filter (\<lambda>x. rarity_ok env
                     (map_option rarities
                        (find (\<lambda>x. productName x = pn) (shoppingListExtended s)))
                     (at_index (split_str CHR ''+'' pn) 1) (item_name x))
            (filter (\<lambda>x. isUnopenedPackProduct env (item_name x))
              (filter (\<lambda>x. isFanMode env (item_name x))
                (filter (\<lambda>x. isIllegalProductChar env (item_name x))
                  (filter (\<lambda>x. containsAllKeywords env (item_name x) pn) data))))))
   \<and> length (filterProdDetail env s data pn) \<le> 10
   \<and> subseq (filterProdDetail env s data pn)
        (map (\<lambda>x. \<lparr> price = goods_price x, qtl = num x, detail_id = item_id x,
                      shopId = user x, deliver_way = item_deliver_way x \<rparr>) data)"
proof -
  let ?rs = "map_option rarities (find (\<lambda>x. productName x = pn) (shoppingListExtended s))"
  let ?now = "at_index (split_str CHR ''+'' pn) 1"
  have conv: "to_ProdDetail
              = (\<lambda>x. \<lparr> price = goods_price x, qtl = num x, detail_id = item_id x,
                         shopId = user x, deliver_way = item_deliver_way x \<rparr>)"
    by (simp add: fun_eq_iff to_ProdDetail_def)
  have eq: "filterProdDetail env s data pn
    = map to_ProdDetail
        (take 10 (filter (\<lambda>x. rarity_ok env ?rs ?now (item_name x))
                    (title_filters env pn data)))"
    by (simp add: filterProdDetail_def Let_def rarity_filters_filter take_map)
  have len: "length (filterProdDetail env s data pn) \<le> 10"
    by (simp add: eq)
  have "subseq (take 10 (filter (\<lambda>x. rarity_ok env ?rs ?now (item_name x))
                           (title_filters env pn data))) data"
    by (rule subseq_order.trans[OF subseq_take_self])
       (auto simp: title_filters_filter intro: subseq_order.trans[OF subseq_filter_left])
  then have sub: "subseq (filterProdDetail env s data pn) (map to_ProdDetail data)"
    unfolding eq by (rule subseq_map)
  from eq len sub show ?thesis unfolding conv by (simp add: title_filters_def)
qed

theorem filterProdDetail_pipeline_witness:
  "filterProdDetail sample_env sample_service [listing1, listing2, listing3] ''1+UR''
   = [\<lparr> price = 50, qtl = 2, detail_id = ''L1'', shopId = ''shopA'',
         deliver_way = [(''SEVEN'', 60), (''POST'', 80), (''FAMI_COD'', 65)] \<rparr>,
      \<lparr> price = 60, qtl = 1, detail_id = ''L3'', shopId = ''shopC'',
         deliver_way = [(''HILIFE'', 45)] \<rparr>]
   \<and> filterProdDetail sample_env sample_service (replicate 12 listing1) ''1+UR''
   = replicate 10
       \<lparr> price = 50, qtl = 2, detail_id = ''L1'', shopId = ''shopA'',
         deliver_way = [(''SEVEN'', 60), (''POST'', 80), (''FAMI_COD'', 65)] \<rparr>"
proof -
  have ok1: "rarity_ok sample_env (Some [''UR'', ''SR'']) (Some ''UR'') ''X UR''"
    by (simp add: rarity_ok_def sample_env_def)
  have ok2: "\<not> rarity_ok sample_env (Some [''UR'', ''SR'']) (Some ''UR'') ''X SR''"
    by (simp add: rarity_ok_def sample_env_def)
  have rs: "map_option rarities
              (find (\<lambda>x. productName x = ''1+UR'') (shoppingListExtended sample_service))
            = Some [''UR'', ''SR'']"
    by (simp add: sample_find sample_extended_def)
  have t: "containsAllKeywords sample_env ''X UR'' ''1+UR''"
    "isIllegalProductChar sample_env ''X UR''"
    "isFanMode sample_env ''X UR''" "isUnopenedPackProduct sample_env ''X UR''"
    "containsAllKeywords sample_env ''X SR'' ''1+UR''"
    "isIllegalProductChar sample_env ''X SR''"
    "isFanMode sample_env ''X SR''" "isUnopenedPackProduct sample_env ''X SR''"
    by (simp_all add: sample_env_def)
  have n: "item_name listing1 = ''X UR''" "item_name listing2 = ''X SR''"
    "item_name listing3 = ''X UR''"
    by (simp_all add: listing1_def listing2_def listing3_def)
  have f1: "goods_price listing1 = 50" "num listing1 = 2" "item_id listing1 = ''L1''"
    "user listing1 = ''shopA''"
    "item_deliver_way listing1 = [(''SEVEN'', 60), (''POST'', 80), (''FAMI_COD'', 65)]"
    by (simp_all add: listing1_def)
  have f3: "goods_price listing3 = 60" "num listing3 = 1" "item_id listing3 = ''L3''"
    "user listing3 = ''shopC''" "item_deliver_way listing3 = [(''HILIFE'', 45)]"
    by (simp_all add: listing3_def)
  have r12: "replicate 12 listing1
             = [listing1, listing1, listing1, listing1, listing1, listing1,
                listing1, listing1, listing1, listing1, listing1, listing1]"
    by (simp add: numeral_eq_Suc)
  have r10: "replicate 10 x = [x, x, x, x, x, x, x, x, x, x]" for x :: ProdDetail
    by (simp add: numeral_eq_Suc)
  from filterProdDetail_pipeline[of sample_env sample_service
      "[listing1, listing2, listing3]" "''1+UR''"]
  have a: "filterProdDetail sample_env sample_service [listing1, listing2, listing3] ''1+UR''
   = [\<lparr> price = 50, qtl = 2, detail_id = ''L1'', shopId = ''shopA'',
         deliver_way = [(''SEVEN'', 60), (''POST'', 80), (''FAMI_COD'', 65)] \<rparr>,
      \<lparr> price = 60, qtl = 1, detail_id = ''L3'', shopId = ''shopC'',
         deliver_way = [(''HILIFE'', 45)] \<rparr>]"
    by (simp add: rs at_index_def ok1 ok2 t n f1 f3)
  from filterProdDetail_pipeline[of sample_env sample_service "replicate 12 listing1" "''1+UR''"]
  have b: "filterProdDetail sample_env sample_service (replicate 12 listing1) ''1+UR''
   = replicate 10
       \<lparr> price = 50, qtl = 2, detail_id = ''L1'', shopId = ''shopA'',
         deliver_way = [(''SEVEN'', 60), (''POST'', 80), (''FAMI_COD'', 65)] \<rparr>"
    unfolding r12 r10
    by (simp add: rs at_index_def ok1 ok2 t n f1)
  from a b show ?thesis by simp
qed

text \<open>
  The rarity stage when the requested rarity is written as the card store writes it. A
  title indicates a rarity when the imported heuristic \<open>notContainsAnotherRarity\<close>
  answers false for it. The stage keeps, in order, exactly the listings whose title
  indicates none of the card's known rarities other than the requested one, other as a
  string.
\<close>

lemma rarity_stage_exact:
  assumes "find (\<lambda>x. productName x = pn) (shoppingListExtended s) = Some ext"
    and "at_index (split_str CHR ''+'' pn) 1 = Some now"
    and "now \<noteq> []"
  shows "rarity_filters env
            (map_option rarities (find (\<lambda>x. productName x = pn) (shoppingListExtended s)))
            (at_index (split_str CHR ''+'' pn) 1) l
         = filter (\<lambda>x. \<forall>rar \<in> set (rarities ext). rar \<noteq> now \<longrightarrow>
                     notContainsAnotherRarity env (item_name x) rar (length (rarities ext))) l
     \<and> (\<forall>d \<in> set (filterProdDetail env s data pn). \<exists>x \<in> set data. d = to_ProdDetail x \<and>
           (\<forall>rar \<in> set (rarities ext). rar \<noteq> now \<longrightarrow>
               notContainsAnotherRarity env (item_name x) rar (length (rarities ext))))"
proof -
  have ok: "rarity_ok env (Some (rarities ext)) (Some now) t
        \<longleftrightarrow> (\<forall>rar \<in> set (rarities ext). rar \<noteq> now \<longrightarrow>
               notContainsAnotherRarity env t rar (length (rarities ext)))" for t
    using assms(3) by (auto simp: rarity_ok_def)
  have stage: "rarity_filters env (Some (rarities ext)) (Some now) l'
         = filter (\<lambda>x. \<forall>rar \<in> set (rarities ext). rar \<noteq> now \<longrightarrow>
               notContainsAnotherRarity env (item_name x) rar (length (rarities ext))) l'" for l'
    by (simp add: rarity_filters_filter ok)
  have "set (filterProdDetail env s data pn)
        \<subseteq> to_ProdDetail ` set (rarity_filters env (Some (rarities ext)) (Some now)
                                  (title_filters env pn data))"
    using assms(1,2) by (auto simp: filterProdDetail_def Let_def dest: in_set_takeD)
  also have "\<dots> \<subseteq> to_ProdDetail ` {x \<in> set data. \<forall>rar \<in> set (rarities ext). rar \<noteq> now \<longrightarrow>
               notContainsAnotherRarity env (item_name x) rar (length (rarities ext))}"
    by (rule image_mono) (auto simp: stage title_filters_filter)
  finally have "\<forall>d \<in> set (filterProdDetail env s data pn). \<exists>x \<in> set data. d = to_ProdDetail x \<and>
           (\<forall>rar \<in> set (rarities ext). rar \<noteq> now \<longrightarrow>
               notContainsAnotherRarity env (item_name x) rar (length (rarities ext)))"
    by blast
  with stage[of l] assms(1,2) show ?thesis by simp
qed


section \<open>Stage B: the shop ids\<close>

lemma findIndex_ge: "- 1 \<le> findIndex p xs"
  by (induction xs) (auto simp: Let_def)

lemma findIndex_none: "findIndex p xs = - 1 \<longleftrightarrow> (\<forall>x\<in>set xs. \<not> p x)"
proof (induction xs)
  case Nil
  then show ?case by simp
next
  case (Cons x xs)
  from findIndex_ge[of p xs] have "findIndex p xs + 1 \<noteq> - 1" by arith
  with Cons show ?case by (auto simp: Let_def)
qed

lemma findIndex_some:
  "findIndex p xs \<noteq> - 1 \<Longrightarrow>
   0 \<le> findIndex p xs \<and> nat (findIndex p xs) < length xs \<and> p (xs ! nat (findIndex p xs))"
proof (induction xs)
  case Nil
  then show ?case by simp
next
  case (Cons x xs)
  show ?case
  proof (cases "p x")
    case True
    then show ?thesis by simp
  next
    case False
    with Cons.prems have ne: "findIndex p xs \<noteq> - 1" by (auto simp: Let_def)
    from Cons.IH[OF ne] False ne show ?thesis
      by (auto simp: Let_def nat_add_distrib)
  qed
qed

lemma map_update_same: "i < length xs \<Longrightarrow> f y = f (xs ! i) \<Longrightarrow> map f (xs[i := y]) = map f xs"
  by (simp add: map_update list_update_same_conv)

lemma addOrUpdateShop_spec:
  "case addOrUpdateShop s prodReq prodDetail of
     (idx, shop) \<Rightarrow>
       shop_id shop = shopId prodDetail \<and>
       (if idx = - 1 then shopId prodDetail \<notin> shop_id ` set (shopList s)
        else 0 \<le> idx \<and> nat idx < length (shopList s)
             \<and> shop_id (shopList s ! nat idx) = shopId prodDetail)"
proof (cases "findIndex (\<lambda>x. shop_id x = shopId prodDetail) (shopList s) = - 1")
  case True
  then show ?thesis
    by (auto simp: addOrUpdateShop_def findIndex_none)
next
  case False
  from findIndex_some[OF False] False show ?thesis
    by (simp add: addOrUpdateShop_def Let_def)
qed

lemma add_detail_ids:
  "map shop_id (shopList (add_detail s prodReq prodDetail))
   = (if shopId prodDetail \<in> shop_id ` set (shopList s) then map shop_id (shopList s)
      else map shop_id (shopList s) @ [shopId prodDetail])"
proof (cases "findIndex (\<lambda>x. shop_id x = shopId prodDetail) (shopList s) = - 1")
  case True
  then show ?thesis
    by (auto simp: add_detail_def addOrUpdateShop_def findIndex_none)
next
  case False
  from findIndex_some[OF False] have "shopId prodDetail \<in> shop_id ` set (shopList s)"
    by (metis (mono_tags, lifting) image_eqI nth_mem)
  with findIndex_some[OF False] False show ?thesis
    by (simp add: add_detail_def addOrUpdateShop_def Let_def map_update_same)
qed

lemma add_detail_other [simp]:
  "shoppingList (add_detail s p d) = shoppingList s"
  "shoppingListExtended (add_detail s p d) = shoppingListExtended s"
  "errorHandler (add_detail s p d) = errorHandler s"
  by (simp_all add: add_detail_def split: prod.splits)

lemma add_details_other [simp]:
  "shoppingList (add_details s p ds) = shoppingList s"
  "shoppingListExtended (add_details s p ds) = shoppingListExtended s"
  "errorHandler (add_details s p ds) = errorHandler s"
  by (induction ds arbitrary: s) simp_all

lemma add_detail_distinct:
  "distinct (map shop_id (shopList s)) \<Longrightarrow> distinct (map shop_id (shopList (add_detail s p d)))"
  by (simp add: add_detail_ids)

lemma add_details_distinct:
  "distinct (map shop_id (shopList s)) \<Longrightarrow> distinct (map shop_id (shopList (add_details s p ds)))"
  by (induction ds arbitrary: s) (simp_all add: add_detail_distinct)

lemma discover_offers_distinct:
  "distinct (map shop_id (shopList s)) \<Longrightarrow> distinct (map shop_id (shopList (discover_offers env s ext)))"
proof (induction ext arbitrary: s)
  case Nil
  then show ?case by simp
next
  case (Cons p ext)
  show ?case
  proof (cases "findProductList env s p")
    case (Inl e)
    with Cons show ?thesis by simp
  next
    case (Inr ds)
    with Cons show ?thesis by (simp add: add_details_distinct)
  qed
qed

lemma stage_B_distinct:
  "distinct (map shop_id (shopList s)) \<Longrightarrow> distinct (map shop_id (shopList (stage_B env s ext)))"
  by (simp add: stage_B_def discover_offers_distinct)

section \<open>Stage C: what stays the same\<close>

lemma add_other_products_ids:
  "add_other_products env sid idx targets (shops, errs) = (shops', errs') \<Longrightarrow>
   map shop_id shops' = map shop_id shops \<and> map shipPrices shops' = map shipPrices shops
   \<and> map freeShip shops' = map freeShip shops \<and> prefix errs errs'"
proof (induction targets arbitrary: shops errs)
  case Nil
  then show ?case by simp
next
  case (Cons p targets)
  show ?case
  proof (cases "getShopOtherProductInfo env sid p")
    case (Inl e)
    with Cons.prems have "add_other_products env sid idx targets (shops, errs @ [e]) = (shops', errs')"
      by simp
    from Cons.IH[OF this] show ?thesis by (auto dest: append_prefixD)
  next
    case (Inr d)
    show ?thesis
    proof (cases "product_id d \<noteq> [] \<and> idx < length shops")
      case True
      let ?shops1 = "shops[idx := (shops ! idx)\<lparr>products := AList.update p d (products (shops ! idx))\<rparr>]"
      from Cons.prems Inr True
      have "add_other_products env sid idx targets (?shops1, errs) = (shops', errs')"
        by simp
      from Cons.IH[OF this] True show ?thesis
        by (simp add: map_update list_update_same_conv)
    next
      case False
      show ?thesis
      proof (cases "product_id d = []")
        case True
        with Cons.prems Inr have "add_other_products env sid idx targets (shops, errs) = (shops', errs')"
          by simp
        from Cons.IH[OF this] show ?thesis .
      next
        case ne: False
        with False Cons.prems Inr
        have "add_other_products env sid idx targets (shops, errs @ [TypeError]) = (shops', errs')"
          by simp
        from Cons.IH[OF this] show ?thesis by (auto dest: append_prefixD)
      qed
    qed
  qed
qed

lemma probe_shop_ids:
  "probe_shop env s entry (shops, errs) = (shops', errs') \<Longrightarrow>
   map shop_id shops' = map shop_id shops \<and> map shipPrices shops' = map shipPrices shops
   \<and> map freeShip shops' = map freeShip shops \<and> prefix errs errs'"
  by (cases entry; cases "getShopId env (sop_name (snd entry))")
     (auto simp: probe_shop_def dest: add_other_products_ids)

lemma probe_shops_ids:
  "probe_shops env s entries (shops, errs) = (shops', errs') \<Longrightarrow>
   map shop_id shops' = map shop_id shops \<and> map shipPrices shops' = map shipPrices shops
   \<and> map freeShip shops' = map freeShip shops \<and> prefix errs errs'"
proof (induction entries arbitrary: shops errs)
  case Nil
  then show ?case by simp
next
  case (Cons entry entries)
  obtain shops1 errs1 where step: "probe_shop env s entry (shops, errs) = (shops1, errs1)"
    by (cases "probe_shop env s entry (shops, errs)")
  with Cons.prems have "probe_shops env s entries (shops1, errs1) = (shops', errs')"
    by simp
  from Cons.IH[OF this] probe_shop_ids[OF step] show ?case
    by (auto intro: prefix_order.trans)
qed

lemma stage_C_ids:
  "map shop_id (shopList (stage_C env s)) = map shop_id (shopList s)"
  "map shipPrices (shopList (stage_C env s)) = map shipPrices (shopList s)"
  "map freeShip (shopList (stage_C env s)) = map freeShip (shopList s)"
  "prefix (errorHandler s) (errorHandler (stage_C env s))"
  "shoppingList (stage_C env s) = shoppingList s"
  "shoppingListExtended (stage_C env s) = shoppingListExtended s"
proof -
  let ?l = "map (\<lambda>x. \<lparr> sop_name = shop_id x, sop_id = [] \<rparr>) (shopList s)"
  obtain shops' errs' where
    run: "probe_shops env s (enumerate 0 ?l) (shopList s, errorHandler s) = (shops', errs')"
    by (cases "probe_shops env s (enumerate 0 ?l) (shopList s, errorHandler s)")
  then have eq: "stage_C env s = s\<lparr>errorHandler := errs', shopList := shops'\<rparr>"
    by (simp add: stage_C_def findShopHasAnotherProduct_def)
  from probe_shops_ids[OF run] show
    "map shop_id (shopList (stage_C env s)) = map shop_id (shopList s)"
    "map shipPrices (shopList (stage_C env s)) = map shipPrices (shopList s)"
    "map freeShip (shopList (stage_C env s)) = map freeShip (shopList s)"
    "prefix (errorHandler s) (errorHandler (stage_C env s))"
    "shoppingList (stage_C env s) = shoppingList s"
    "shoppingListExtended (stage_C env s) = shoppingListExtended s"
    by (simp_all add: eq)
qed

section \<open>Stage D: the outcome for every shop\<close>

lemma setDefaultFreeShip_in_range:
  "idx < length (shopList s) \<Longrightarrow>
   setDefaultFreeShip s idx = Inr [(first_key (shipPrices (shopList s ! idx)), 99999)]"
  by (simp add: setDefaultFreeShip_def at_index_def)

lemma setDefaultFreeShip_out_of_range:
  "\<not> idx < length (shopList s) \<Longrightarrow> setDefaultFreeShip s idx = Inl TypeError"
  by (simp add: setDefaultFreeShip_def at_index_def)

lemma getShipInfo_in_range:
  assumes "idx < length (shopList s)"
  shows "getShipInfo env s shop idx
    = (Inr (if fetched_freeShip env (shop_id shop) = []
            then [(first_key (shipPrices (shopList s ! idx)), 99999)]
            else fetched_freeShip env (shop_id shop)),
       s\<lparr>errorHandler := errorHandler s
            @ (if fetch_failed env (shop_id shop)
               then [Text (''Error while getting ships info for '' @ shop_id shop)]
               else [])\<rparr>)"
proof (cases "axios_get env (SHOP_SHIP_INFO (shop_id shop))")
  case (Inl e)
  with assms show ?thesis
    by (simp add: getShipInfo_def getShipInfo_try_def fetched_freeShip_def fetch_failed_def
          setDefaultFreeShip_def at_index_def)
next
  case (Inr r)
  with assms show ?thesis
    by (cases r)
       (simp_all add: getShipInfo_def getShipInfo_try_def fetched_freeShip_def fetch_failed_def
          setDefaultFreeShip_def at_index_def Let_def)
qed

lemma ship_info_all_run:
  assumes "shops = drop n (shopList s)"
  shows "ship_info_all env (enumerate n shops) s
    = (map (\<lambda>shop. Inr (settled_freeShip env shop)) shops,
       s\<lparr>errorHandler := errorHandler s @ ship_errors env shops\<rparr>)"
  using assms
proof (induction shops arbitrary: n s)
  case Nil
  then show ?case by (simp add: ship_errors_def)
next
  case (Cons shop shops)
  from Cons.prems have n: "n < length (shopList s)"
    by (metis drop_all list.distinct(1) not_le_imp_less)
  from Cons.prems n have shop: "shopList s ! n = shop"
    by (metis Cons_nth_drop_Suc list.inject)
  from Cons.prems n have rest: "shops = drop (Suc n) (shopList s)"
    by (metis Cons_nth_drop_Suc list.inject)
  let ?s1 = "s\<lparr>errorHandler := errorHandler s
            @ (if fetch_failed env (shop_id shop)
               then [Text (''Error while getting ships info for '' @ shop_id shop)]
               else [])\<rparr>"
  have step: "getShipInfo env s shop n = (Inr (settled_freeShip env shop), ?s1)"
    using getShipInfo_in_range[OF n, of env shop] by (simp add: shop settled_freeShip_def)
  have "shops = drop (Suc n) (shopList ?s1)" using rest by simp
  from Cons.IH[OF this] step show ?case
    by (simp add: ship_errors_def)
qed

lemma set_freeShip_in_range:
  "idx < length (shopList s) \<Longrightarrow>
   set_freeShip s idx v = Inr (s\<lparr>shopList := (shopList s)[idx := (shopList s ! idx)\<lparr>freeShip := v\<rparr>]\<rparr>)"
  by (simp add: set_freeShip_def at_index_def)

lemma apply_ship_results_fulfilled:
  assumes "n + length vs = length (shopList s)"
  shows "apply_ship_results (enumerate n (map Inr vs)) s
    = (None, s\<lparr>shopList := take n (shopList s)
                  @ map2 (\<lambda>shop v. shop\<lparr>freeShip := v\<rparr>) (drop n (shopList s)) vs\<rparr>)"
  using assms
proof (induction vs arbitrary: n s)
  case Nil
  then show ?case by simp
next
  case (Cons v vs)
  from Cons.prems have n: "n < length (shopList s)" by simp
  let ?s1 = "s\<lparr>shopList := (shopList s)[n := (shopList s ! n)\<lparr>freeShip := v\<rparr>]\<rparr>"
  from Cons.prems have "Suc n + length vs = length (shopList ?s1)" by simp
  from Cons.IH[OF this] set_freeShip_in_range[OF n, of v] n show ?case
    by (simp add: take_Suc_conv_app_nth Cons_nth_drop_Suc[symmetric])
qed

lemma stage_D_run:
  "stage_D env s
   = (None, s\<lparr>shopList := map (\<lambda>shop. shop\<lparr>freeShip := settled_freeShip env shop\<rparr>) (shopList s),
              errorHandler := errorHandler s @ ship_errors env (shopList s)\<rparr>)"
proof -
  let ?vs = "map (settled_freeShip env) (shopList s)"
  let ?s1 = "s\<lparr>errorHandler := errorHandler s @ ship_errors env (shopList s)\<rparr>"
  have a: "ship_info_all env (enumerate 0 (shopList s)) s = (map Inr ?vs, ?s1)"
    using ship_info_all_run[of "shopList s" 0 s env] by (simp add: comp_def)
  have "0 + length ?vs = length (shopList ?s1)" by simp
  from apply_ship_results_fulfilled[OF this]
  have b: "apply_ship_results (enumerate 0 (map Inr ?vs)) ?s1
    = (None, ?s1\<lparr>shopList := map2 (\<lambda>shop v. shop\<lparr>freeShip := v\<rparr>) (shopList s) ?vs\<rparr>)"
    by simp
  have c: "map2 (\<lambda>shop v. shop\<lparr>freeShip := v\<rparr>) (shopList s) ?vs
           = map (\<lambda>shop. shop\<lparr>freeShip := settled_freeShip env shop\<rparr>) (shopList s)"
    by (induction "shopList s") (auto simp: zip_map2 map_zip_map2 intro: nth_equalityI)
  from a b c show ?thesis by (simp add: stage_D_def)
qed

section \<open>The run, and the uniqueness of shop ids\<close>

lemma sample_run:
  "getShopList sample_env (constructor sample_requests)
   = (Inr [shopA_final, shopC_final],
      \<lparr> shoppingList = [\<lparr>productName = ''1+UR'', count = 3\<rparr>,
                        \<lparr>productName = ''2+SR'', count = 2\<rparr>],
        shoppingListExtended = sample_extended,
        shopList = [shopA_final, shopC_final],
        errorHandler = [Error ''Error while getting product list for 2+SR'',
                        Error ''Error while getting product list for shopC''] \<rparr>)"
  by code_simp

lemma stage_D_ids:
  "map shop_id (shopList (snd (stage_D env s))) = map shop_id (shopList s)"
  "map products (shopList (snd (stage_D env s))) = map products (shopList s)"
  "map shipPrices (shopList (snd (stage_D env s))) = map shipPrices (shopList s)"
  "fst (stage_D env s) = None"
  "prefix (errorHandler s) (errorHandler (snd (stage_D env s)))"
  by (simp_all add: stage_D_run comp_def)

lemma getShopList_run:
  "getShopList env s
   = (case getProductRequestExtended env s of
        Inl e \<Rightarrow> (Inr [], s\<lparr>errorHandler := errorHandler s @ [e]\<rparr>)
      | Inr ext \<Rightarrow>
          (Inr (shopList (snd (stage_D env (stage_C env (stage_B env s ext))))),
           snd (stage_D env (stage_C env (stage_B env s ext)))))"
  by (simp add: getShopList_def stage_D_run split: sum.splits)

text \<open>
  Claim C5. In a service whose shop list has no two entries with the same id (as the
  constructor's empty list), \<open>addOrUpdateShop\<close> returns a shop with the listing's shop
  id, together with \<open>-1\<close> when no entry has that id and otherwise the index of the
  entry that has it; the caller appends in the first case and replaces that entry in the
  second, so the ids stay as they are or gain the new id at the end. The shop list has no
  two entries with the same id after every processed listing, after each of the stages B,
  C and D, in the list the run returns, and in the service the run leaves behind.
\<close>

theorem shop_ids_unique:
  assumes "distinct (map shop_id (shopList s))"
  shows "(case addOrUpdateShop s prodReq prodDetail of
            (idx, shop) \<Rightarrow>
              shop_id shop = shopId prodDetail \<and>
              (if idx = - 1 then shopId prodDetail \<notin> shop_id ` set (shopList s)
               else 0 \<le> idx \<and> nat idx < length (shopList s)
                    \<and> shop_id (shopList s ! nat idx) = shopId prodDetail))
         \<and> map shop_id (shopList (add_detail s prodReq prodDetail))
             = (if shopId prodDetail \<in> shop_id ` set (shopList s) then map shop_id (shopList s)
                else map shop_id (shopList s) @ [shopId prodDetail])
         \<and> distinct (map shop_id (shopList (add_detail s prodReq prodDetail)))
         \<and> distinct (map shop_id (shopList (stage_B env s ext)))
         \<and> distinct (map shop_id (shopList (stage_C env (stage_B env s ext))))
         \<and> distinct (map shop_id
               (shopList (snd (stage_D env (stage_C env (stage_B env s ext))))))
         \<and> (\<exists>shops. fst (getShopList env s) = Inr shops \<and> distinct (map shop_id shops))
         \<and> distinct (map shop_id (shopList (snd (getShopList env s))))"
proof -
  note spec = addOrUpdateShop_spec[where s = s and prodReq = prodReq and prodDetail = prodDetail]
  note ids = add_detail_ids[where s = s and prodReq = prodReq and prodDetail = prodDetail]
  have step: "distinct (map shop_id (shopList (add_detail s prodReq prodDetail)))"
    using assms by (rule add_detail_distinct)
  have B: "distinct (map shop_id (shopList (stage_B env s ext')))" for ext'
    using assms by (rule stage_B_distinct)
  have C: "distinct (map shop_id (shopList (stage_C env (stage_B env s ext'))))" for ext'
    using B by (simp add: stage_C_ids)
  have D: "distinct (map shop_id (shopList (snd (stage_D env (stage_C env (stage_B env s ext'))))))"
    for ext'
    using C by (simp add: stage_D_ids)
  have run: "(\<exists>shops. fst (getShopList env s) = Inr shops \<and> distinct (map shop_id shops))
         \<and> distinct (map shop_id (shopList (snd (getShopList env s))))"
    using D assms by (cases "getProductRequestExtended env s") (simp_all add: getShopList_run)
  from spec ids step B C D run show ?thesis by blast
qed

theorem shop_ids_unique_witness:
  "distinct (map shop_id (shopList sample_found_shops))
   \<and> map shop_id (shopList sample_found_shops) = [''shopA'', ''shopC'']
   \<and> shopId (to_ProdDetail listing9) = ''shopA''
   \<and> fst (addOrUpdateShop sample_found_shops (sample_extended ! 1) (to_ProdDetail listing9)) = 0
   \<and> map shop_id (shopList (add_detail sample_found_shops (sample_extended ! 1)
                               (to_ProdDetail listing9)))
       = [''shopA'', ''shopC'']
   \<and> shopId (to_ProdDetail listing2) = ''shopB''
   \<and> fst (addOrUpdateShop sample_found_shops (sample_extended ! 1) (to_ProdDetail listing2)) = - 1
   \<and> map shop_id (shopList (add_detail sample_found_shops (sample_extended ! 1)
                               (to_ProdDetail listing2)))
       = [''shopA'', ''shopC'', ''shopB'']
   \<and> fst (getShopList sample_env (constructor sample_requests)) = Inr [shopA_final, shopC_final]
   \<and> distinct (map shop_id [shopA_final, shopC_final])"
proof -
  let ?s = sample_found_shops
  let ?p = "sample_extended ! 1"
  have ids: "map shop_id (shopList ?s) = [''shopA'', ''shopC'']"
    by code_simp
  then have d: "distinct (map shop_id (shopList ?s))" by simp
  have d0: "distinct (map shop_id (shopList (constructor sample_requests)))"
    by (simp add: constructor_def)
  have a: "shopId (to_ProdDetail listing9) = ''shopA''"
    and b: "shopId (to_ProdDetail listing2) = ''shopB''"
    by (simp_all add: to_ProdDetail_def listing9_def listing2_def)
  have ia: "fst (addOrUpdateShop ?s ?p (to_ProdDetail listing9)) = 0"
    and ib: "fst (addOrUpdateShop ?s ?p (to_ProdDetail listing2)) = - 1"
    by code_simp+
  have set_ids: "shop_id ` set (shopList ?s) = {''shopA'', ''shopC''}"
    using ids by (metis list.set_map list.simps(15) empty_set)
  from shop_ids_unique[OF d, where prodReq = ?p and prodDetail = "to_ProdDetail listing9"
      and env = sample_env and ext = sample_extended]
  have ra: "map shop_id (shopList (add_detail ?s ?p (to_ProdDetail listing9)))
            = [''shopA'', ''shopC'']"
    by (simp add: a ids set_ids)
  from shop_ids_unique[OF d, where prodReq = ?p and prodDetail = "to_ProdDetail listing2"
      and env = sample_env and ext = sample_extended]
  have rb: "map shop_id (shopList (add_detail ?s ?p (to_ProdDetail listing2)))
            = [''shopA'', ''shopC'', ''shopB'']"
    by (simp add: b ids set_ids)
  from shop_ids_unique[OF d0, where env = sample_env and prodReq = ?p
      and prodDetail = "to_ProdDetail listing1" and ext = sample_extended] sample_run
  have run: "distinct (map shop_id [shopA_final, shopC_final])"
    by auto
  from d ids a b ia ib ra rb sample_run run show ?thesis by simp
qed

section \<open>Stage D never rejects\<close>

lemma ship_info_all_fulfilled:
  "fst (ship_info_all env (enumerate 0 (shopList s)) s)
   = map (\<lambda>shop. Inr (settled_freeShip env shop)) (shopList s)"
  using ship_info_all_run[of "shopList s" 0 s env] by simp

lemma getShipInfo_try_failure:
  assumes "idx < length (shopList s)" and "getShipInfo_try env s shop idx = Inl e"
  shows "fetch_failed env (shop_id shop)" and "fetched_freeShip env (shop_id shop) = []"
proof -
  show "fetch_failed env (shop_id shop)"
  proof (cases "axios_get env (SHOP_SHIP_INFO (shop_id shop))")
    case (Inl e')
    then show ?thesis by (simp add: fetch_failed_def)
  next
    case (Inr r)
    with assms show ?thesis
      by (cases r)
         (simp_all add: getShipInfo_try_def fetch_failed_def setDefaultFreeShip_in_range Let_def
            split: if_splits)
  qed
  then show "fetched_freeShip env (shop_id shop) = []"
    by (auto simp: fetch_failed_def fetched_freeShip_def split: sum.splits Response.splits)
qed

text \<open>
  Claim C10. The index that \<open>getShipInfo\<close> receives is the index of a shop in the shop
  list: its only call passes each shop of the list with its own index. At such an index
  \<open>getShipInfo\<close> fulfils. When its \<open>try\<close> block fails, for
  whatever reason, the string naming the shop is appended to the accumulator and the
  fallback mapping is the value. In Stage D every settled result is fulfilled, with the
  recognised entries or the fallback, so the \<open>forEach\<close> takes the fulfilled branch at
  every index, does not throw, and the accumulator gains the strings of the failed
  requests and no rejection reason (in whatever order the requests complete).
\<close>

theorem getShipInfo_fulfils:
  "(idx < length (shopList s) \<longrightarrow>
      (\<exists>v. fst (getShipInfo env s shop idx) = Inr v)
      \<and> (\<forall>e. getShipInfo_try env s shop idx = Inl e \<longrightarrow>
            getShipInfo env s shop idx
            = (Inr [(first_key (shipPrices (shopList s ! idx)), 99999)],
               s\<lparr>errorHandler := errorHandler s
                    @ [Text (''Error while getting ships info for '' @ shop_id shop)]\<rparr>)))
   \<and> fst (ship_info_all env (enumerate 0 (shopList s)) s)
       = map (\<lambda>shop. Inr (settled_freeShip env shop)) (shopList s)
   \<and> fst (stage_D env s) = None
   \<and> prefix (errorHandler s) (errorHandler (snd (stage_D env s)))
   \<and> set (errorHandler (snd (stage_D env s)))
       = set (errorHandler s) \<union> set (ship_errors env (shopList s))"
proof -
  have one: "(\<exists>v. fst (getShipInfo env s shop idx) = Inr v)
      \<and> (\<forall>e. getShipInfo_try env s shop idx = Inl e \<longrightarrow>
            getShipInfo env s shop idx
            = (Inr [(first_key (shipPrices (shopList s ! idx)), 99999)],
               s\<lparr>errorHandler := errorHandler s
                    @ [Text (''Error while getting ships info for '' @ shop_id shop)]\<rparr>))"
    if r: "idx < length (shopList s)"
  proof -
    have "\<exists>v. fst (getShipInfo env s shop idx) = Inr v"
      by (simp add: getShipInfo_in_range[OF r])
    moreover have "getShipInfo env s shop idx
            = (Inr [(first_key (shipPrices (shopList s ! idx)), 99999)],
               s\<lparr>errorHandler := errorHandler s
                    @ [Text (''Error while getting ships info for '' @ shop_id shop)]\<rparr>)"
      if "getShipInfo_try env s shop idx = Inl e" for e
      using getShipInfo_try_failure[OF r that] by (simp add: getShipInfo_in_range[OF r])
    ultimately show ?thesis by blast
  qed
  have all: "fst (ship_info_all env (enumerate 0 (shopList s)) s)
       = map (\<lambda>shop. Inr (settled_freeShip env shop)) (shopList s)"
    by (rule ship_info_all_fulfilled)
  have D: "fst (stage_D env s) = None
     \<and> prefix (errorHandler s) (errorHandler (snd (stage_D env s)))
     \<and> set (errorHandler (snd (stage_D env s)))
         = set (errorHandler s) \<union> set (ship_errors env (shopList s))"
    by (simp add: stage_D_run)
  from one all D show ?thesis by blast
qed

theorem getShipInfo_fulfils_witness:
  "(0::nat) < length [shopB_final]
   \<and> getShipInfo_try sample_env (sample_service\<lparr>shopList := [shopB_final]\<rparr>) shopB_final 0
     = Inl (Rejected ''503'')
   \<and> getShipInfo sample_env (sample_service\<lparr>shopList := [shopB_final]\<rparr>) shopB_final 0
     = (Inr [(''undefined'', 99999)],
        sample_service\<lparr>shopList := [shopB_final],
          errorHandler := [Text ''Error while getting ships info for shopB'']\<rparr>)"
proof -
  let ?s = "sample_service\<lparr>shopList := [shopB_final]\<rparr>"
  have r: "0 < length (shopList ?s)" by simp
  have t: "getShipInfo_try sample_env ?s shopB_final 0 = Inl (Rejected ''503'')"
    by (simp add: getShipInfo_try_def sample_env_def shopB_final_def)
  have e: "errorHandler ?s = []"
    by (simp add: sample_service_def constructor_def)
  have k: "first_key (shipPrices shopB_final) = ''undefined''" "shop_id shopB_final = ''shopB''"
    by (simp_all add: first_key_def shopB_final_def)
  from getShipInfo_fulfils[of 0 ?s sample_env shopB_final] r t
  have "getShipInfo sample_env ?s shopB_final 0
     = (Inr [(first_key (shipPrices (shopList ?s ! 0)), 99999)],
        ?s\<lparr>errorHandler := errorHandler ?s
             @ [Text (''Error while getting ships info for '' @ shop_id shopB_final)]\<rparr>)"
    by blast
  with t show ?thesis by (simp add: e k)
qed

section \<open>The fallback of Stage D\<close>

lemma first_key_Cons: "first_key ((k, v) # rest) = k"
  by (simp add: first_key_def)

lemma getShopList_shops:
  assumes "fst (getShopList env s) = Inr shops" and "shop \<in> set shops"
  shows "freeShip shop = settled_freeShip env shop"
proof (cases "getProductRequestExtended env s")
  case (Inl e)
  with assms show ?thesis by (simp add: getShopList_run)
next
  case (Inr ext)
  with assms obtain shop0 where "shop = shop0\<lparr>freeShip := settled_freeShip env shop0\<rparr>"
    by (auto simp: getShopList_run stage_D_run)
  then show ?thesis by (simp add: settled_freeShip_def)
qed

text \<open>Where a shop has a known carrier, the fallback of Stage D is the single entry
  under the first of them.\<close>

lemma fallback_freeShip:
  assumes "fst (getShopList env s) = Inr shops" and "shop \<in> set shops"
    and "fetched_freeShip env (shop_id shop) = []"
    and "shipPrices shop = (carrier, fee) # rest"
  shows "freeShip shop = [(carrier, 99999)]"
  using getShopList_shops[OF assms(1,2)] assms(3,4)
  by (simp add: settled_freeShip_def first_key_Cons)

text \<open>
  Claim C3 at the one-item list \<open>1+SR\<close>. The only listing found ships by post, so shop
  B is created with no known carrier; the request for its discounts fails. The shop ends
  the run with one entry of value 99999 whose key is the text \<open>undefined\<close>, which is
  the first key of no mapping of the shop: \<open>Object.keys(shipPrices)[0]\<close> is read
  without a test for the empty mapping.
\<close>

theorem fallback_without_carrier:
  "fst (getShopList sample_env (constructor [\<lparr>productName = ''1+SR'', count = 1\<rparr>]))
     = Inr [shopB_final]
   \<and> fetched_freeShip sample_env (shop_id shopB_final) = []
   \<and> shipPrices shopB_final = []
   \<and> freeShip shopB_final = [(''undefined'', 99999)]"
  by code_simp

section \<open>Stage B: offers are kept and failures reported\<close>

lemma stocks_append: "stocks shops a b \<Longrightarrow> stocks (shops @ others) a b"
  by (auto simp: stocks_def)

lemma update_keys_superset: "set (obj_keys al) \<subseteq> set (obj_keys (AList.update k v al))"
  by (induction al) auto

lemma update_key_in: "k \<in> set (obj_keys (AList.update k v al))"
  by (induction al) auto

lemma stocks_update:
  assumes "stocks shops a b" and "i < length shops"
  shows "stocks (shops[i := (shops ! i)\<lparr>products := AList.update k v (products (shops ! i))\<rparr>]) a b"
proof -
  from assms(1) obtain shop where shop: "shop \<in> set shops" "shop_id shop = a"
    "b \<in> set (obj_keys (products shop))"
    unfolding stocks_def by blast
  from shop(1) obtain j where "j < length shops" "shops ! j = shop"
    by (auto simp: in_set_conv_nth)
  with shop have j: "j < length shops" "shop_id (shops ! j) = a"
    "b \<in> set (obj_keys (products (shops ! j)))"
    by simp_all
  let ?shops = "shops[i := (shops ! i)\<lparr>products := AList.update k v (products (shops ! i))\<rparr>]"
  have "shop_id (?shops ! j) = a \<and> b \<in> set (obj_keys (products (?shops ! j)))"
  proof (cases "j = i")
    case True
    with j assms(2) update_keys_superset[of "products (shops ! i)" k v] show ?thesis
      by auto
  next
    case False
    with j show ?thesis by simp
  qed
  moreover from j have "?shops ! j \<in> set ?shops" by simp
  ultimately show ?thesis unfolding stocks_def by blast
qed

lemma stocks_update_new:
  assumes "i < length shops"
  shows "stocks (shops[i := (shops ! i)\<lparr>products := AList.update k v (products (shops ! i))\<rparr>])
           (shop_id (shops ! i)) k"
proof -
  let ?shops = "shops[i := (shops ! i)\<lparr>products := AList.update k v (products (shops ! i))\<rparr>]"
  from assms have "?shops ! i \<in> set ?shops" by (simp add: set_update_memI)
  moreover from assms have "shop_id (?shops ! i) = shop_id (shops ! i)
      \<and> k \<in> set (obj_keys (products (?shops ! i)))"
    using update_key_in[of k v "products (shops ! i)"] by simp
  ultimately show ?thesis unfolding stocks_def by blast
qed

lemma add_detail_stocks:
  "stocks (shopList s) a b \<Longrightarrow> stocks (shopList (add_detail s p d)) a b"
  "stocks (shopList (add_detail s p d)) (shopId d) (productName p)"
proof -
  let ?i = "findIndex (\<lambda>x. shop_id x = shopId d) (shopList s)"
  show "stocks (shopList (add_detail s p d)) a b" if "stocks (shopList s) a b"
  proof (cases "?i = - 1")
    case True
    with that show ?thesis
      by (simp add: add_detail_def addOrUpdateShop_def stocks_append)
  next
    case False
    from findIndex_some[OF False] that False show ?thesis
      by (simp add: add_detail_def addOrUpdateShop_def Let_def stocks_update)
  qed
  show "stocks (shopList (add_detail s p d)) (shopId d) (productName p)"
  proof (cases "?i = - 1")
    case True
    then show ?thesis
      by (simp add: add_detail_def addOrUpdateShop_def stocks_def)
  next
    case False
    from findIndex_some[OF False] stocks_update_new[of "nat ?i" "shopList s"] False show ?thesis
      by (simp add: add_detail_def addOrUpdateShop_def Let_def)
  qed
qed

lemma add_details_stocks:
  "stocks (shopList s) a b \<Longrightarrow> stocks (shopList (add_details s p ds)) a b"
  "d \<in> set ds \<Longrightarrow> stocks (shopList (add_details s p ds)) (shopId d) (productName p)"
proof -
  show mono: "stocks (shopList (add_details s p ds)) a b" if "stocks (shopList s) a b" for s a b ds
    using that by (induction ds arbitrary: s) (simp_all add: add_detail_stocks)
  show "stocks (shopList (add_details s p ds)) (shopId d) (productName p)" if "d \<in> set ds"
    using that
  proof (induction ds arbitrary: s)
    case Nil
    then show ?case by simp
  next
    case (Cons d' ds)
    then show ?case by (auto intro: mono add_detail_stocks(2))
  qed
qed

lemma findProductList_cong:
  assumes "shoppingListExtended s = shoppingListExtended s'"
  shows "findProductList env s p = findProductList env s' p"
proof -
  have eq: "filterProdDetail env s = filterProdDetail env s'"
    by (simp add: fun_eq_iff filterProdDetail_def assms)
  show ?thesis unfolding findProductList_def eq by (rule refl)
qed

lemma findProductList_error:
  "findProductList env s p = Inl e \<Longrightarrow>
   e = Error (''Error while getting product list for '' @ productName p)"
  by (auto simp: findProductList_def Let_def split: sum.splits Response.splits if_splits)

lemma discover_offers_other [simp]:
  "shoppingList (discover_offers env s ext) = shoppingList s"
  "shoppingListExtended (discover_offers env s ext) = shoppingListExtended s"
  by (induction ext arbitrary: s) (simp_all split: sum.splits)

lemma discover_offers_stocks:
  "stocks (shopList s) a b \<Longrightarrow> stocks (shopList (discover_offers env s ext)) a b"
  by (induction ext arbitrary: s) (simp_all add: add_details_stocks split: sum.splits)

lemma discover_offers_errors: "prefix (errorHandler s) (errorHandler (discover_offers env s ext))"
proof (induction ext arbitrary: s)
  case Nil
  then show ?case by simp
next
  case (Cons p ext)
  show ?case
  proof (cases "findProductList env s p")
    case (Inl e)
    from Cons[of "s\<lparr>errorHandler := errorHandler s @ [e]\<rparr>"] Inl show ?thesis
      by (auto dest: append_prefixD)
  next
    case (Inr ds)
    from Cons[of "add_details s p ds"] Inr show ?thesis by simp
  qed
qed

lemma discover_offers_covers:
  "p \<in> set ext \<Longrightarrow> findProductList env s p = Inr ds \<Longrightarrow> d \<in> set ds \<Longrightarrow>
   stocks (shopList (discover_offers env s ext)) (shopId d) (productName p)"
proof (induction ext arbitrary: s)
  case Nil
  then show ?case by simp
next
  case (Cons q ext)
  let ?s1 = "case findProductList env s q of
          Inr prodList \<Rightarrow> add_details s q prodList
        | Inl e \<Rightarrow> s\<lparr>errorHandler := errorHandler s @ [e]\<rparr>"
  have ext1: "shoppingListExtended ?s1 = shoppingListExtended s"
    by (simp split: sum.splits)
  show ?case
  proof (cases "p = q")
    case True
    from Cons.prems(2) have "findProductList env s q = Inr ds" unfolding True .
    then have "?s1 = add_details s q ds" by simp
    with Cons.prems(3) have "stocks (shopList ?s1) (shopId d) (productName p)"
      unfolding True by (simp add: add_details_stocks)
    then show ?thesis by (simp add: discover_offers_stocks)
  next
    case False
    with Cons.prems have "p \<in> set ext" by simp
    moreover from Cons.prems have "findProductList env ?s1 p = Inr ds"
      using findProductList_cong[OF ext1] by simp
    ultimately show ?thesis using Cons.IH[of ?s1] Cons.prems(3) by simp
  qed
qed

lemma discover_offers_reports:
  "p \<in> set ext \<Longrightarrow> findProductList env s p = Inl e \<Longrightarrow>
   e \<in> set (errorHandler (discover_offers env s ext))"
proof (induction ext arbitrary: s)
  case Nil
  then show ?case by simp
next
  case (Cons q ext)
  let ?s1 = "case findProductList env s q of
          Inr prodList \<Rightarrow> add_details s q prodList
        | Inl e \<Rightarrow> s\<lparr>errorHandler := errorHandler s @ [e]\<rparr>"
  have ext1: "shoppingListExtended ?s1 = shoppingListExtended s"
    by (simp split: sum.splits)
  show ?case
  proof (cases "p = q")
    case True
    from Cons.prems(2) have "findProductList env s q = Inl e" unfolding True .
    then have "e \<in> set (errorHandler ?s1)" by simp
    with discover_offers_errors[of ?s1 env ext] show ?thesis
      by (auto dest: set_mono_prefix)
  next
    case False
    with Cons.prems have "p \<in> set ext" by simp
    moreover from Cons.prems have "findProductList env ?s1 p = Inl e"
      using findProductList_cong[OF ext1] by simp
    ultimately show ?thesis using Cons.IH[of ?s1] by simp
  qed
qed

section \<open>The run keeps what Stage B found\<close>

lemma add_other_products_stocks:
  "add_other_products env sid idx targets (shops, errs) = (shops', errs') \<Longrightarrow>
   stocks shops a b \<Longrightarrow> stocks shops' a b"
proof (induction targets arbitrary: shops errs)
  case Nil
  then show ?case by simp
next
  case (Cons p targets)
  show ?case
  proof (cases "getShopOtherProductInfo env sid p")
    case (Inl e)
    with Cons.prems(1)
    have "add_other_products env sid idx targets (shops, errs @ [e]) = (shops', errs')"
      by simp
    from Cons.IH[OF this Cons.prems(2)] show ?thesis .
  next
    case (Inr d)
    show ?thesis
    proof (cases "product_id d \<noteq> [] \<and> idx < length shops")
      case True
      let ?shops1 = "shops[idx := (shops ! idx)
                        \<lparr>products := AList.update p d (products (shops ! idx))\<rparr>]"
      from Cons.prems(1) Inr True
      have "add_other_products env sid idx targets (?shops1, errs) = (shops', errs')"
        by simp
      moreover from Cons.prems(2) True have "stocks ?shops1 a b"
        by (simp add: stocks_update)
      ultimately show ?thesis by (rule Cons.IH)
    next
      case False
      show ?thesis
      proof (cases "product_id d = []")
        case True
        with Cons.prems(1) Inr
        have "add_other_products env sid idx targets (shops, errs) = (shops', errs')"
          by simp
        from Cons.IH[OF this Cons.prems(2)] show ?thesis .
      next
        case ne: False
        with False Cons.prems(1) Inr
        have "add_other_products env sid idx targets (shops, errs @ [TypeError]) = (shops', errs')"
          by simp
        from Cons.IH[OF this Cons.prems(2)] show ?thesis .
      qed
    qed
  qed
qed

lemma probe_shop_stocks:
  assumes "probe_shop env s entry (shops, errs) = (shops', errs')" and "stocks shops a b"
  shows "stocks shops' a b"
proof (cases "getShopId env (sop_name (snd entry))")
  case (Inl e)
  with assms show ?thesis by (simp add: probe_shop_def split: prod.splits)
next
  case (Inr sellerId)
  with assms(1)
  have "add_other_products env sellerId (fst entry) (targetProduct_of s (sop_name (snd entry)))
          (shops, errs) = (shops', errs')"
    by (simp add: probe_shop_def split: prod.splits)
  from add_other_products_stocks[OF this assms(2)] show ?thesis .
qed

lemma probe_shops_stocks:
  "probe_shops env s entries (shops, errs) = (shops', errs') \<Longrightarrow>
   stocks shops a b \<Longrightarrow> stocks shops' a b"
proof (induction entries arbitrary: shops errs)
  case Nil
  then show ?case by simp
next
  case (Cons entry entries)
  obtain shops1 errs1 where step: "probe_shop env s entry (shops, errs) = (shops1, errs1)"
    by (cases "probe_shop env s entry (shops, errs)")
  from probe_shop_stocks[OF step Cons.prems(2)] have "stocks shops1 a b" .
  moreover from Cons.prems(1) step
  have "probe_shops env s entries (shops1, errs1) = (shops', errs')"
    by simp
  ultimately show ?case by (rule Cons.IH[rotated])
qed

lemma stage_C_stocks:
  "stocks (shopList s) a b \<Longrightarrow> stocks (shopList (stage_C env s)) a b"
proof -
  assume st: "stocks (shopList s) a b"
  let ?l = "map (\<lambda>x. \<lparr> sop_name = shop_id x, sop_id = [] \<rparr>) (shopList s)"
  obtain shops' errs' where
    run: "probe_shops env s (enumerate 0 ?l) (shopList s, errorHandler s) = (shops', errs')"
    by (cases "probe_shops env s (enumerate 0 ?l) (shopList s, errorHandler s)")
  then have "shopList (stage_C env s) = shops'"
    by (simp add: stage_C_def findShopHasAnotherProduct_def)
  with probe_shops_stocks[OF run st] show ?thesis by simp
qed

lemma stage_D_stocks:
  assumes "stocks (shopList s) a b"
  shows "stocks (shopList (snd (stage_D env s))) a b"
proof -
  from assms obtain shop where shop: "shop \<in> set (shopList s)" "shop_id shop = a"
    "b \<in> set (obj_keys (products shop))"
    unfolding stocks_def by blast
  let ?shop = "shop\<lparr>freeShip := settled_freeShip env shop\<rparr>"
  from shop(1) have "?shop \<in> set (shopList (snd (stage_D env s)))"
    by (simp add: stage_D_run)
  moreover from shop have "shop_id ?shop = a \<and> b \<in> set (obj_keys (products ?shop))"
    by simp
  ultimately show ?thesis unfolding stocks_def by blast
qed

lemma stage_B_errors: "prefix (errorHandler s) (errorHandler (stage_B env s ext))"
  using discover_offers_errors[of "s\<lparr>shoppingListExtended := ext\<rparr>" env ext]
  by (simp add: stage_B_def)

text \<open>What a run that passes Stage A keeps of the offers and failures of Stage B.\<close>

lemma run_covers:
  assumes "getProductRequestExtended env s = Inr ext" and "p \<in> set ext"
    and "findProductList env (s\<lparr>shoppingListExtended := ext\<rparr>) p = Inr ds" and "d \<in> set ds"
  shows "\<exists>shops. fst (getShopList env s) = Inr shops \<and> stocks shops (shopId d) (productName p)"
proof -
  from discover_offers_covers[OF assms(2,3,4)]
  have "stocks (shopList (stage_B env s ext)) (shopId d) (productName p)"
    by (simp add: stage_B_def)
  then have "stocks (shopList (snd (stage_D env (stage_C env (stage_B env s ext)))))
               (shopId d) (productName p)"
    by (intro stage_D_stocks stage_C_stocks)
  with assms(1) show ?thesis by (simp add: getShopList_run)
qed

lemma run_errors:
  "prefix (errorHandler s) (errorHandler (snd (getShopList env s)))"
proof (cases "getProductRequestExtended env s")
  case (Inl e)
  then show ?thesis by (simp add: getShopList_run)
next
  case (Inr ext)
  have "prefix (errorHandler s) (errorHandler (stage_B env s ext))"
    by (rule stage_B_errors)
  also have "prefix \<dots> (errorHandler (stage_C env (stage_B env s ext)))"
    by (rule stage_C_ids)
  also have "prefix \<dots> (errorHandler (snd (stage_D env (stage_C env (stage_B env s ext)))))"
    by (rule stage_D_ids)
  finally show ?thesis using Inr by (simp add: getShopList_run)
qed

lemma run_reports:
  assumes "getProductRequestExtended env s = Inr ext" and "p \<in> set ext"
    and "findProductList env (s\<lparr>shoppingListExtended := ext\<rparr>) p = Inl e"
  shows "e \<in> set (errorHandler (snd (getShopList env s)))"
proof -
  from discover_offers_reports[OF assms(2,3)]
  have "e \<in> set (errorHandler (stage_B env s ext))"
    by (simp add: stage_B_def)
  moreover have "prefix (errorHandler (stage_B env s ext))
                   (errorHandler (snd (stage_D env (stage_C env (stage_B env s ext)))))"
    by (rule prefix_order.trans[OF stage_C_ids(4) stage_D_ids(5)])
  ultimately have "e \<in> set (errorHandler (snd (stage_D env (stage_C env (stage_B env s ext)))))"
    by (rule set_mp[OF set_mono_prefix, rotated])
  with assms(1) show ?thesis by (simp add: getShopList_run)
qed

section \<open>Stage A: the lists that resolve\<close>

lemma extend_request_fields [simp]:
  "productName (extend_request x) = productName x"
  "count (extend_request x) = count x"
  "card_id (extend_request x) = hd (split_str CHR ''+'' (productName x))"
  by (simp_all add: extend_request_def)

lemma resolve_cards_found:
  "(\<exists>ext. resolve_cards env (map extend_request l) = Inr ext) \<longleftrightarrow> (\<forall>x\<in>set l. card_found env x)"
proof (induction l)
  case Nil
  then show ?case by simp
next
  case (Cons x l)
  show ?case
  proof (cases "find_cards env (hd (split_str CHR ''+'' (productName x)))
                  (at_index (split_str CHR ''+'' (productName x)) 1)")
    case (Inl e)
    then show ?thesis by (simp add: card_found_def)
  next
    case (Inr cards)
    show ?thesis
    proof (cases cards)
      case Nil
      with Inr show ?thesis by (simp add: card_found_def)
    next
      case (Cons cardData rest)
      with Inr have found: "card_found env x" by (simp add: card_found_def)
      show ?thesis
      proof (cases "resolve_cards env (map extend_request l)")
        case (Inl e)
        with Cons.IH Inr Cons found show ?thesis
          by auto
      next
        case r: (Inr ext')
        with Cons.IH Inr Cons found show ?thesis
          by auto
      qed
    qed
  qed
qed

lemma stage_A_found:
  "(\<exists>ext. getProductRequestExtended env s = Inr ext)
   \<longleftrightarrow> (\<forall>x\<in>set (shoppingList s). card_found env x)"
  by (simp add: getProductRequestExtended_def resolve_cards_found)

lemma stage_A_names:
  "getProductRequestExtended env s = Inr ext \<Longrightarrow>
   map productName ext = map productName (shoppingList s)"
  by (auto simp: getProductRequestExtended_def extend_request_def comp_def
      dest!: resolve_cards_fields)

lemma sample_resolve:
  "getProductRequestExtended sample_env (constructor sample_requests) = Inr sample_extended"
  by (simp add: getProductRequestExtended_def constructor_def extend_request_def
        sample_requests_def sample_extended_def sample_env_def sample_cards_def
        at_index_def Let_def)

lemma sample_offers:
  "findProductList sample_env
     ((constructor sample_requests)\<lparr>shoppingListExtended := sample_extended\<rparr>)
     (sample_extended ! 0)
   = Inr [to_ProdDetail listing1, to_ProdDetail listing3]"
  by code_simp

lemma sample_failure:
  "findProductList sample_env
     ((constructor sample_requests)\<lparr>shoppingListExtended := sample_extended\<rparr>)
     (sample_extended ! 1)
   = Inl (Error ''Error while getting product list for 2+SR'')"
  by code_simp

lemma sample_found: "\<forall>x\<in>set (shoppingList (constructor sample_requests)). card_found sample_env x"
  using sample_resolve stage_A_found by blast

section \<open>A failure of Stage B is contained\<close>

text \<open>
  Claim C2. In a run that passes Stage A, let the discovery of offers fail for an item.
  The failure is the error that names the item; it is in the accumulator when the run
  ends, and the accumulator with which the run started is a prefix of the final one. The
  run returns a shop list, and every offer that Stage B finds for any item of the list,
  before or after the failed one, is held, under the item's name, by a shop of the
  returned list with the offer's shop id.
\<close>

theorem stage_B_failure_contained:
  assumes "getProductRequestExtended env s = Inr ext" and "p \<in> set ext"
    and "findProductList env (s\<lparr>shoppingListExtended := ext\<rparr>) p = Inl e"
  shows "e = Error (''Error while getting product list for '' @ productName p)
     \<and> e \<in> set (errorHandler (snd (getShopList env s)))
     \<and> prefix (errorHandler s) (errorHandler (snd (getShopList env s)))
     \<and> (\<exists>shops. fst (getShopList env s) = Inr shops
          \<and> (\<forall>q\<in>set ext. \<forall>ds.
                findProductList env (s\<lparr>shoppingListExtended := ext\<rparr>) q = Inr ds \<longrightarrow>
                (\<forall>d\<in>set ds. stocks shops (shopId d) (productName q))))"
proof -
  let ?shops = "shopList (snd (stage_D env (stage_C env (stage_B env s ext))))"
  from assms(1) have run: "fst (getShopList env s) = Inr ?shops"
    by (simp add: getShopList_run)
  have cover: "stocks ?shops (shopId d) (productName q)"
    if "q \<in> set ext" "findProductList env (s\<lparr>shoppingListExtended := ext\<rparr>) q = Inr ds"
      "d \<in> set ds" for q ds d
    using run_covers[OF assms(1) that] run by simp
  from findProductList_error[OF assms(3)] run_reports[OF assms] run_errors[of s env] run cover
  show ?thesis by blast
qed

theorem stage_B_failure_contained_witness:
  "getProductRequestExtended sample_env (constructor sample_requests) = Inr sample_extended
   \<and> findProductList sample_env
       ((constructor sample_requests)\<lparr>shoppingListExtended := sample_extended\<rparr>)
       (sample_extended ! 1)
     = Inl (Error ''Error while getting product list for 2+SR'')
   \<and> findProductList sample_env
       ((constructor sample_requests)\<lparr>shoppingListExtended := sample_extended\<rparr>)
       (sample_extended ! 0)
     = Inr [to_ProdDetail listing1, to_ProdDetail listing3]
   \<and> Error ''Error while getting product list for 2+SR''
       \<in> set (errorHandler (snd (getShopList sample_env (constructor sample_requests))))
   \<and> fst (getShopList sample_env (constructor sample_requests)) = Inr [shopA_final, shopC_final]
   \<and> stocks [shopA_final, shopC_final] ''shopA'' ''1+UR''
   \<and> stocks [shopA_final, shopC_final] ''shopC'' ''1+UR''"
proof -
  let ?s = "constructor sample_requests"
  have p: "sample_extended ! 1 \<in> set sample_extended" "sample_extended ! 0 \<in> set sample_extended"
    "productName (sample_extended ! 0) = ''1+UR''"
    by (simp_all add: sample_extended_def)
  from stage_B_failure_contained[OF sample_resolve p(1) sample_failure]
  obtain shops where reported: "Error ''Error while getting product list for 2+SR''
       \<in> set (errorHandler (snd (getShopList sample_env ?s)))"
    and run: "fst (getShopList sample_env ?s) = Inr shops"
    "\<forall>q\<in>set sample_extended. \<forall>ds.
        findProductList sample_env (?s\<lparr>shoppingListExtended := sample_extended\<rparr>) q = Inr ds \<longrightarrow>
        (\<forall>d\<in>set ds. stocks shops (shopId d) (productName q))"
    by blast
  from run(1) sample_run have shops: "shops = [shopA_final, shopC_final]" by simp
  from run(2) p(2) sample_offers
  have "\<forall>d\<in>set [to_ProdDetail listing1, to_ProdDetail listing3].
          stocks shops (shopId d) (productName (sample_extended ! 0))"
    by blast
  then have "stocks [shopA_final, shopC_final] ''shopA'' ''1+UR''"
    "stocks [shopA_final, shopC_final] ''shopC'' ''1+UR''"
    by (simp_all add: shops p(3) to_ProdDetail_def listing1_def listing3_def)
  with sample_resolve sample_failure sample_offers reported run(1) shops show ?thesis by simp
qed

section \<open>Stage C: one shop at a time\<close>

lemma find_distinct:
  "distinct (map f xs) \<Longrightarrow> i < length xs \<Longrightarrow> find (\<lambda>x. f x = f (xs ! i)) xs = Some (xs ! i)"
proof (induction xs arbitrary: i)
  case Nil
  then show ?case by simp
next
  case (Cons x xs)
  show ?case
  proof (cases i)
    case 0
    then show ?thesis by simp
  next
    case (Suc j)
    with Cons.prems have "xs ! j \<in> set xs" by simp
    then have "f (xs ! j) \<in> f ` set xs" by (rule imageI)
    with Cons.prems have "f (xs ! j) \<noteq> f x" by auto
    with Cons Suc show ?thesis by auto
  qed
qed

lemma targetProduct_of_distinct:
  assumes "distinct (map shop_id (shopList s))" and "i < length (shopList s)"
  shows "targetProduct_of s (shop_id (shopList s ! i))
    = filter (\<lambda>x. x \<notin> set (obj_keys (products (shopList s ! i))))
        (map productName (shoppingList s))"
  using find_distinct[OF assms] by (simp add: targetProduct_of_def)

lemma target_not_held:
  assumes "distinct (map shop_id (shopList s))" and "i < length (shopList s)"
    and "k \<in> set (targetProduct_of s (shop_id (shopList s ! i)))"
  shows "map_of (products (shopList s ! i)) k = None"
  using assms(3) unfolding targetProduct_of_distinct[OF assms(1,2)]
  by (simp add: map_of_eq_None_iff)

text \<open>The inner loop of Stage C, at an index inside the list.\<close>

lemma add_other_products_result:
  assumes "add_other_products env sid idx targets (shops, errs) = (shops', errs')"
    and "idx < length shops"
  shows "length shops' = length shops"
    and "\<forall>j. j \<noteq> idx \<longrightarrow> shops' ! j = shops ! j"
    and "map_of (products (shops' ! idx)) k
         = (if k \<in> set targets
            then (case found_product env sid k of
                    Some d \<Rightarrow> Some d
                  | None \<Rightarrow> map_of (products (shops ! idx)) k)
            else map_of (products (shops ! idx)) k)"
    and "\<forall>q\<in>set targets. \<forall>e. getShopOtherProductInfo env sid q = Inl e \<longrightarrow> e \<in> set errs'"
  using assms
proof (induction targets arbitrary: shops errs)
  case Nil
  { case 1 then show ?case by simp }
  { case 2 then show ?case by simp }
  { case 3 then show ?case by simp }
  { case 4 then show ?case by simp }
next
  case (Cons p targets)
  { case 1
    show ?case
    proof (cases "getShopOtherProductInfo env sid p")
      case (Inl e)
      with 1 have "add_other_products env sid idx targets (shops, errs @ [e]) = (shops', errs')"
        by simp
      from Cons.IH(1)[OF this 1(2)] show ?thesis .
    next
      case (Inr d)
      show ?thesis
      proof (cases "product_id d = []")
        case True
        with 1 Inr have "add_other_products env sid idx targets (shops, errs) = (shops', errs')"
          by simp
        from Cons.IH(1)[OF this 1(2)] show ?thesis .
      next
        case False
        let ?shops1 = "shops[idx := (shops ! idx)
                          \<lparr>products := AList.update p d (products (shops ! idx))\<rparr>]"
        from 1 Inr False
        have "add_other_products env sid idx targets (?shops1, errs) = (shops', errs')"
          by simp
        from Cons.IH(1)[OF this] 1(2) show ?thesis by simp
      qed
    qed }
  { case 2
    show ?case
    proof (cases "getShopOtherProductInfo env sid p")
      case (Inl e)
      with 2 have "add_other_products env sid idx targets (shops, errs @ [e]) = (shops', errs')"
        by simp
      from Cons.IH(2)[OF this 2(2)] show ?thesis .
    next
      case (Inr d)
      show ?thesis
      proof (cases "product_id d = []")
        case True
        with 2 Inr have "add_other_products env sid idx targets (shops, errs) = (shops', errs')"
          by simp
        from Cons.IH(2)[OF this 2(2)] show ?thesis .
      next
        case False
        let ?shops1 = "shops[idx := (shops ! idx)
                          \<lparr>products := AList.update p d (products (shops ! idx))\<rparr>]"
        from 2 Inr False
        have "add_other_products env sid idx targets (?shops1, errs) = (shops', errs')"
          by simp
        from Cons.IH(2)[OF this] 2(2) show ?thesis by simp
      qed
    qed }
  { case 3
    show ?case
    proof (cases "getShopOtherProductInfo env sid p")
      case (Inl e)
      with 3 have "add_other_products env sid idx targets (shops, errs @ [e]) = (shops', errs')"
        by simp
      from Cons.IH(3)[OF this 3(2)] Inl show ?thesis
        by (simp add: found_product_def)
    next
      case (Inr d)
      show ?thesis
      proof (cases "product_id d = []")
        case True
        with 3 Inr have "add_other_products env sid idx targets (shops, errs) = (shops', errs')"
          by simp
        from Cons.IH(3)[OF this 3(2)] Inr True show ?thesis
          by (simp add: found_product_def)
      next
        case False
        let ?shops1 = "shops[idx := (shops ! idx)
                          \<lparr>products := AList.update p d (products (shops ! idx))\<rparr>]"
        from 3 Inr False
        have run: "add_other_products env sid idx targets (?shops1, errs) = (shops', errs')"
          by simp
        have len: "idx < length ?shops1" using 3(2) by simp
        have p: "found_product env sid p = Some d"
          using Inr False by (simp add: found_product_def)
        from Cons.IH(3)[OF run len] 3(2) p show ?thesis
          by (auto simp: AList.update_conv' split: option.splits)
      qed
    qed }
  { case 4
    show ?case
    proof (cases "getShopOtherProductInfo env sid p")
      case (Inl e)
      with 4 have run: "add_other_products env sid idx targets (shops, errs @ [e]) = (shops', errs')"
        by simp
      from add_other_products_ids[OF run] have "e \<in> set errs'"
        by (auto dest: set_mono_prefix)
      with Cons.IH(4)[OF run 4(2)] Inl show ?thesis by simp
    next
      case (Inr d)
      show ?thesis
      proof (cases "product_id d = []")
        case True
        with 4 Inr have "add_other_products env sid idx targets (shops, errs) = (shops', errs')"
          by simp
        from Cons.IH(4)[OF this 4(2)] Inr show ?thesis by simp
      next
        case False
        let ?shops1 = "shops[idx := (shops ! idx)
                          \<lparr>products := AList.update p d (products (shops ! idx))\<rparr>]"
        from 4 Inr False
        have run: "add_other_products env sid idx targets (?shops1, errs) = (shops', errs')"
          by simp
        have len: "idx < length ?shops1" using 4(2) by simp
        from Cons.IH(4)[OF run len] Inr show ?thesis by simp
      qed
    qed }
qed


lemma add_other_products_frame:
  "add_other_products env sid idx targets (shops, errs) = (shops', errs') \<Longrightarrow>
   length shops' = length shops \<and> (\<forall>j. j \<noteq> idx \<longrightarrow> shops' ! j = shops ! j)"
proof (induction targets arbitrary: shops errs)
  case Nil
  then show ?case by simp
next
  case (Cons p targets)
  show ?case
  proof (cases "getShopOtherProductInfo env sid p")
    case (Inl e)
    with Cons.prems
    have "add_other_products env sid idx targets (shops, errs @ [e]) = (shops', errs')"
      by simp
    from Cons.IH[OF this] show ?thesis .
  next
    case (Inr d)
    show ?thesis
    proof (cases "product_id d \<noteq> [] \<and> idx < length shops")
      case True
      let ?shops1 = "shops[idx := (shops ! idx)
                        \<lparr>products := AList.update p d (products (shops ! idx))\<rparr>]"
      from Cons.prems Inr True
      have "add_other_products env sid idx targets (?shops1, errs) = (shops', errs')"
        by simp
      from Cons.IH[OF this] show ?thesis by simp
    next
      case False
      show ?thesis
      proof (cases "product_id d = []")
        case True
        with Cons.prems Inr
        have "add_other_products env sid idx targets (shops, errs) = (shops', errs')"
          by simp
        from Cons.IH[OF this] show ?thesis .
      next
        case ne: False
        with False Cons.prems Inr
        have "add_other_products env sid idx targets (shops, errs @ [TypeError]) = (shops', errs')"
          by simp
        from Cons.IH[OF this] show ?thesis .
      qed
    qed
  qed
qed

lemma probe_shop_frame:
  assumes "probe_shop env s (n, nm) (shops, errs) = (shops1, errs1)"
  shows "length shops1 = length shops \<and> (\<forall>j. j \<noteq> n \<longrightarrow> shops1 ! j = shops ! j)"
proof (cases "getShopId env (sop_name nm)")
  case (Inl e)
  with assms show ?thesis by (simp add: probe_shop_def)
next
  case (Inr sid)
  with assms
  have "add_other_products env sid n (targetProduct_of s (sop_name nm)) (shops, errs)
        = (shops1, errs1)"
    by (simp add: probe_shop_def)
  from add_other_products_frame[OF this] show ?thesis .
qed

lemma probe_shops_frame:
  "probe_shops env s entries (shops, errs) = (shops', errs') \<Longrightarrow>
   length shops' = length shops \<and> (\<forall>j. j \<notin> fst ` set entries \<longrightarrow> shops' ! j = shops ! j)"
proof (induction entries arbitrary: shops errs)
  case Nil
  then show ?case by simp
next
  case (Cons entry entries)
  obtain n nm where entry: "entry = (n, nm)" by (cases entry)
  obtain shops1 errs1 where step: "probe_shop env s (n, nm) (shops, errs) = (shops1, errs1)"
    by (cases "probe_shop env s (n, nm) (shops, errs)")
  with Cons.prems entry have "probe_shops env s entries (shops1, errs1) = (shops', errs')"
    by simp
  from Cons.IH[OF this] probe_shop_frame[OF step] entry show ?case by auto
qed

lemma probe_shop_probed:
  assumes "probe_shop env s (n, \<lparr>sop_name = shop_id (shops ! n), sop_id = []\<rparr>) (shops, errs)
           = (shops1, errs1)"
    and "n < length shops"
  shows "probed env s (shops ! n) (shops1 ! n) errs1"
proof (cases "getShopId env (shop_id (shops ! n))")
  case (Inl e)
  with assms show ?thesis by (auto simp: probe_shop_def probed_def)
next
  case (Inr sid)
  with assms(1)
  have run: "add_other_products env sid n (targetProduct_of s (shop_id (shops ! n))) (shops, errs)
        = (shops1, errs1)"
    by (simp add: probe_shop_def)
  note r = add_other_products_result[OF run assms(2)]
  from r(3) r(4) Inr show ?thesis by (simp add: probed_def)
qed

lemma probed_mono:
  assumes "probed env s shop shop' errs" and "prefix errs errs'"
  shows "probed env s shop shop' errs'"
proof -
  from assms(2) have "set errs \<subseteq> set errs'" by (rule set_mono_prefix)
  with assms(1) show ?thesis
    unfolding probed_def by (cases "getShopId env (shop_id shop)") auto
qed

lemma probe_shops_probed:
  assumes "length shops = length (shopList s)"
    and "\<forall>j. n \<le> j \<longrightarrow> j < length shops \<longrightarrow> shops ! j = shopList s ! j"
    and "probe_shops env s
           (enumerate n (map (\<lambda>x. \<lparr>sop_name = shop_id x, sop_id = []\<rparr>) (drop n (shopList s))))
           (shops, errs) = (shops', errs')"
    and "n \<le> i" and "i < length (shopList s)"
  shows "probed env s (shopList s ! i) (shops' ! i) errs'"
  using assms
proof (induction "length (shopList s) - n" arbitrary: n shops errs)
  case 0
  then show ?case by simp
next
  case (Suc m)
  let ?mk = "\<lambda>x. \<lparr>sop_name = shop_id x, sop_id = []\<rparr>"
  from Suc.hyps(2) have n: "n < length (shopList s)" by simp
  then have drop: "drop n (shopList s) = shopList s ! n # drop (Suc n) (shopList s)"
    by (simp add: Cons_nth_drop_Suc)
  from Suc.prems(1,2) n have here: "shops ! n = shopList s ! n" by simp
  obtain shops1 errs1 where step:
    "probe_shop env s (n, \<lparr>sop_name = shop_id (shops ! n), sop_id = []\<rparr>) (shops, errs)
     = (shops1, errs1)"
    by (cases "probe_shop env s (n, \<lparr>sop_name = shop_id (shops ! n), sop_id = []\<rparr>) (shops, errs)")
  with Suc.prems(3) drop here
  have rest: "probe_shops env s (enumerate (Suc n) (map ?mk (drop (Suc n) (shopList s))))
                (shops1, errs1) = (shops', errs')"
    by simp
  note frame1 = probe_shop_frame[OF step]
  show ?case
  proof (cases "i = n")
    case True
    from Suc.prems(1) n have "n < length shops" by simp
    from probe_shop_probed[OF step this] here
    have "probed env s (shopList s ! n) (shops1 ! n) errs1" by simp
    moreover have "n \<notin> fst ` set (enumerate (Suc n) (map ?mk (drop (Suc n) (shopList s))))"
      by (auto simp: in_set_enumerate_eq)
    with probe_shops_frame[OF rest] have "shops' ! n = shops1 ! n" by blast
    moreover from probe_shops_ids[OF rest] have "prefix errs1 errs'" by simp
    ultimately show ?thesis using True by (auto intro: probed_mono)
  next
    case False
    with Suc.prems(4) have "Suc n \<le> i" by simp
    moreover from Suc.hyps(2) have "m = length (shopList s) - Suc n" by simp
    moreover from frame1 Suc.prems(1) have "length shops1 = length (shopList s)" by simp
    moreover from frame1 Suc.prems(2)
    have "\<forall>j. Suc n \<le> j \<longrightarrow> j < length shops1 \<longrightarrow> shops1 ! j = shopList s ! j"
      by auto
    ultimately show ?thesis using rest Suc.prems(5) by (intro Suc.hyps(1))
  qed
qed

lemma stage_C_probed:
  assumes "i < length (shopList s)"
  shows "probed env s (shopList s ! i) (shopList (stage_C env s) ! i) (errorHandler (stage_C env s))"
proof -
  let ?l = "map (\<lambda>x. \<lparr> sop_name = shop_id x, sop_id = [] \<rparr>) (shopList s)"
  obtain shops' errs' where
    run: "probe_shops env s (enumerate 0 ?l) (shopList s, errorHandler s) = (shops', errs')"
    by (cases "probe_shops env s (enumerate 0 ?l) (shopList s, errorHandler s)")
  then have eq: "stage_C env s = s\<lparr>errorHandler := errs', shopList := shops'\<rparr>"
    by (simp add: stage_C_def findShopHasAnotherProduct_def)
  from run have "probe_shops env s
      (enumerate 0 (map (\<lambda>x. \<lparr>sop_name = shop_id x, sop_id = []\<rparr>) (drop 0 (shopList s))))
      (shopList s, errorHandler s) = (shops', errs')"
    by simp
  from probe_shops_probed[OF _ _ this _ assms] show ?thesis by (simp add: eq)
qed

section \<open>Stage C: failures are contained\<close>

lemma map_eq_nth: "map f xs = map f ys \<Longrightarrow> i < length ys \<Longrightarrow> f (xs ! i) = f (ys ! i)"
  by (metis length_map nth_map)

lemma sample_stage_C:
  "stage_C sample_env sample_found_shops
   = sample_found_shops
       \<lparr> shopList := [shopA_final\<lparr>freeShip := []\<rparr>, shopC_final\<lparr>freeShip := []\<rparr>],
         errorHandler := [Error ''Error while getting other product info for sellerA 9+ZZ'',
                          Error ''Error while getting product list for shopC''] \<rparr>"
  by code_simp

text \<open>
  Claim C8. Stage C starts from a shop list without repeated ids (Claim C5) and returns
  a list of the same length in which every shop keeps its place, its id, its shipping
  fees and free-shipping mapping, and every product entry it had. The accumulator only
  grows. If the seller id of a shop does not resolve, the error is in the accumulator and
  the shop is returned as it was. If it resolves, then for every requested product that
  the shop lacks: when the probe fails, its error is in the accumulator and the shop gets
  no entry for that product; when the probe finds a detail with an id, the shop gets that
  entry, whatever happened to the probes of the other products.
\<close>

theorem stage_C_failures_contained:
  assumes "distinct (map shop_id (shopList s))" and "i < length (shopList s)"
  shows "length (shopList (stage_C env s)) = length (shopList s)
     \<and> shop_id (shopList (stage_C env s) ! i) = shop_id (shopList s ! i)
     \<and> shipPrices (shopList (stage_C env s) ! i) = shipPrices (shopList s ! i)
     \<and> freeShip (shopList (stage_C env s) ! i) = freeShip (shopList s ! i)
     \<and> (\<forall>k v. map_of (products (shopList s ! i)) k = Some v \<longrightarrow>
            map_of (products (shopList (stage_C env s) ! i)) k = Some v)
     \<and> prefix (errorHandler s) (errorHandler (stage_C env s))
     \<and> (\<forall>e. getShopId env (shop_id (shopList s ! i)) = Inl e \<longrightarrow>
            e \<in> set (errorHandler (stage_C env s))
            \<and> shopList (stage_C env s) ! i = shopList s ! i)
     \<and> (\<forall>sellerId. getShopId env (shop_id (shopList s ! i)) = Inr sellerId \<longrightarrow>
            (\<forall>q \<in> set (targetProduct_of s (shop_id (shopList s ! i))).
                (\<forall>e. getShopOtherProductInfo env sellerId q = Inl e \<longrightarrow>
                    e \<in> set (errorHandler (stage_C env s))
                    \<and> map_of (products (shopList (stage_C env s) ! i)) q = None)
                \<and> (\<forall>d. getShopOtherProductInfo env sellerId q = Inr d \<longrightarrow>
                    product_id d \<noteq> [] \<longrightarrow>
                    map_of (products (shopList (stage_C env s) ! i)) q = Some d)))"
proof -
  let ?shop = "shopList s ! i"
  let ?shop' = "shopList (stage_C env s) ! i"
  let ?errs = "errorHandler (stage_C env s)"
  note ids = stage_C_ids[where env = env and s = s]
  from ids(1) have len: "length (shopList (stage_C env s)) = length (shopList s)"
    by (rule map_eq_imp_length_eq)
  have same: "shop_id ?shop' = shop_id ?shop" "shipPrices ?shop' = shipPrices ?shop"
    "freeShip ?shop' = freeShip ?shop"
    using ids(1,2,3) assms(2) by (auto intro: map_eq_nth)
  note p = stage_C_probed[OF assms(2), where env = env]
  note fresh = target_not_held[OF assms]
  have failed: "e \<in> set ?errs \<and> ?shop' = ?shop"
    if "getShopId env (shop_id ?shop) = Inl e" for e
    using p that by (simp add: probed_def)
  have resolved:
    "map_of (products ?shop') k
       = (if k \<in> set (targetProduct_of s (shop_id ?shop))
          then (case found_product env sellerId k of
                  Some d \<Rightarrow> Some d
                | None \<Rightarrow> map_of (products ?shop) k)
          else map_of (products ?shop) k)"
    "\<forall>q \<in> set (targetProduct_of s (shop_id ?shop)). \<forall>e.
        getShopOtherProductInfo env sellerId q = Inl e \<longrightarrow> e \<in> set ?errs"
    if "getShopId env (shop_id ?shop) = Inr sellerId" for sellerId k
    using p that by (simp_all add: probed_def)
  have kept: "map_of (products ?shop') k = Some v" if "map_of (products ?shop) k = Some v" for k v
  proof (cases "getShopId env (shop_id ?shop)")
    case (Inl e)
    with failed that show ?thesis by simp
  next
    case (Inr sellerId)
    from that fresh[of k] have "k \<notin> set (targetProduct_of s (shop_id ?shop))" by auto
    with resolved(1)[OF Inr, of k] that show ?thesis by simp
  qed
  have probe:
    "(\<forall>e. getShopOtherProductInfo env sellerId q = Inl e \<longrightarrow>
          e \<in> set ?errs \<and> map_of (products ?shop') q = None)
     \<and> (\<forall>d. getShopOtherProductInfo env sellerId q = Inr d \<longrightarrow> product_id d \<noteq> [] \<longrightarrow>
          map_of (products ?shop') q = Some d)"
    if "getShopId env (shop_id ?shop) = Inr sellerId"
      and q: "q \<in> set (targetProduct_of s (shop_id ?shop))" for sellerId q
    using resolved(1)[OF that(1), of q] resolved(2)[OF that(1)] q fresh[OF q]
    by (auto simp: found_product_def)
  from len same kept ids(4) failed probe show ?thesis by blast
qed

theorem stage_C_failures_contained_witness:
  "distinct (map shop_id (shopList sample_found_shops))
   \<and> length (shopList sample_found_shops) = 2
   \<and> getShopId sample_env (shop_id (shopList sample_found_shops ! 1))
       = Inl (Error ''Error while getting product list for shopC'')
   \<and> Error ''Error while getting product list for shopC''
       \<in> set (errorHandler (stage_C sample_env sample_found_shops))
   \<and> shopList (stage_C sample_env sample_found_shops) ! 1 = shopList sample_found_shops ! 1
   \<and> getShopId sample_env (shop_id (shopList sample_found_shops ! 0)) = Inr ''sellerA''
   \<and> targetProduct_of sample_found_shops (shop_id (shopList sample_found_shops ! 0))
       = [''2+SR'', ''9+ZZ'']
   \<and> getShopOtherProductInfo sample_env ''sellerA'' ''9+ZZ''
       = Inl (Error ''Error while getting other product info for sellerA 9+ZZ'')
   \<and> Error ''Error while getting other product info for sellerA 9+ZZ''
       \<in> set (errorHandler (stage_C sample_env sample_found_shops))
   \<and> map_of (products (shopList (stage_C sample_env sample_found_shops) ! 0)) ''9+ZZ'' = None
   \<and> map_of (products (shopList (stage_C sample_env sample_found_shops) ! 0)) ''2+SR''
       = Some \<lparr>product_id = ''L9'', product_price = 30, product_qtl = 4\<rparr>
   \<and> map_of (products (shopList (stage_C sample_env sample_found_shops) ! 0)) ''1+UR''
       = Some \<lparr>product_id = ''L1'', product_price = 50, product_qtl = 2\<rparr>"
proof -
  let ?s = sample_found_shops
  have d: "distinct (map shop_id (shopList ?s))" by code_simp
  have l: "length (shopList ?s) = 2" by code_simp
  have i0: "0 < length (shopList ?s)" and i1: "1 < length (shopList ?s)"
    by (simp_all add: l)
  have c: "getShopId sample_env (shop_id (shopList ?s ! 1))
           = Inl (Error ''Error while getting product list for shopC'')"
    by code_simp
  have a: "getShopId sample_env (shop_id (shopList ?s ! 0)) = Inr ''sellerA''"
    by code_simp
  have t: "targetProduct_of ?s (shop_id (shopList ?s ! 0)) = [''2+SR'', ''9+ZZ'']"
    by code_simp
  have z: "getShopOtherProductInfo sample_env ''sellerA'' ''9+ZZ''
           = Inl (Error ''Error while getting other product info for sellerA 9+ZZ'')"
    by code_simp
  have y: "getShopOtherProductInfo sample_env ''sellerA'' ''2+SR''
           = Inr \<lparr>product_id = ''L9'', product_price = 30, product_qtl = 4\<rparr>"
    by code_simp
  have x: "map_of (products (shopList ?s ! 0)) ''1+UR''
           = Some \<lparr>product_id = ''L1'', product_price = 50, product_qtl = 2\<rparr>"
    by code_simp
  note at1 = stage_C_failures_contained[OF d i1, where env = sample_env]
  note at0 = stage_C_failures_contained[OF d i0, where env = sample_env]
  from at1 c have r1: "Error ''Error while getting product list for shopC''
       \<in> set (errorHandler (stage_C sample_env ?s))"
    "shopList (stage_C sample_env ?s) ! 1 = shopList ?s ! 1"
    by blast+
  from at0 a t z have r2: "Error ''Error while getting other product info for sellerA 9+ZZ''
       \<in> set (errorHandler (stage_C sample_env ?s))"
    "map_of (products (shopList (stage_C sample_env ?s) ! 0)) ''9+ZZ'' = None"
    by auto
  from at0 a t y have r3: "map_of (products (shopList (stage_C sample_env ?s) ! 0)) ''2+SR''
       = Some \<lparr>product_id = ''L9'', product_price = 30, product_qtl = 4\<rparr>"
    by auto
  from at0 x have r4: "map_of (products (shopList (stage_C sample_env ?s) ! 0)) ''1+UR''
       = Some \<lparr>product_id = ''L1'', product_price = 50, product_qtl = 2\<rparr>"
    by blast
  from d l c a t z r1 r2 r3 r4 show ?thesis by simp
qed

section \<open>Stage A decides whether the run goes on\<close>

lemma add_detail_holds_new:
  "holds_offer (shopList (add_detail s p d)) (productName p) d"
proof (cases "findIndex (\<lambda>x. shop_id x = shopId d) (shopList s) = - 1")
  case True
  then show ?thesis
    by (simp add: add_detail_def addOrUpdateShop_def holds_offer_def new_product_def)
next
  case False
  let ?i = "nat (findIndex (\<lambda>x. shop_id x = shopId d) (shopList s))"
  let ?shop = "(shopList s ! ?i)\<lparr>products :=
                  AList.update (productName p) (new_product d) (products (shopList s ! ?i))\<rparr>"
  from findIndex_some[OF False] have i: "?i < length (shopList s)"
    "shop_id (shopList s ! ?i) = shopId d"
    by simp_all
  from False have list: "shopList (add_detail s p d) = (shopList s)[?i := ?shop]"
    by (simp add: add_detail_def addOrUpdateShop_def Let_def)
  from i(1) have "?shop \<in> set ((shopList s)[?i := ?shop])" by (rule set_update_memI)
  moreover from i(2) have "shop_id ?shop = shopId d" by simp
  moreover have "map_of (products ?shop) (productName p)
        = Some \<lparr> product_id = detail_id d, product_price = price d, product_qtl = qtl d \<rparr>"
    by (simp add: AList.update_conv' new_product_def)
  ultimately show ?thesis unfolding holds_offer_def list by blast
qed

lemma add_detail_holds_keep:
  assumes "holds_offer (shopList s) n d0" and "shopId d \<noteq> shopId d0 \<or> productName p \<noteq> n"
  shows "holds_offer (shopList (add_detail s p d)) n d0"
proof -
  let ?entry = "\<lparr> product_id = detail_id d0, product_price = price d0, product_qtl = qtl d0 \<rparr>"
  from assms(1) obtain shop where shop: "shop \<in> set (shopList s)" "shop_id shop = shopId d0"
    "map_of (products shop) n = Some ?entry"
    unfolding holds_offer_def by blast
  show ?thesis
  proof (cases "findIndex (\<lambda>x. shop_id x = shopId d) (shopList s) = - 1")
    case True
    then have "shopList (add_detail s p d) = shopList s @ [snd (addOrUpdateShop s p d)]"
      by (simp add: add_detail_def addOrUpdateShop_def)
    with shop show ?thesis unfolding holds_offer_def by auto
  next
    case False
    let ?i = "nat (findIndex (\<lambda>x. shop_id x = shopId d) (shopList s))"
    let ?shop = "(shopList s ! ?i)\<lparr>products :=
                  AList.update (productName p) (new_product d) (products (shopList s ! ?i))\<rparr>"
    from findIndex_some[OF False] have i: "?i < length (shopList s)"
      "shop_id (shopList s ! ?i) = shopId d"
      by simp_all
    from False have list: "shopList (add_detail s p d) = (shopList s)[?i := ?shop]"
      by (simp add: add_detail_def addOrUpdateShop_def Let_def)
    from shop(1) obtain j where j: "j < length (shopList s)" "shopList s ! j = shop"
      by (auto simp: in_set_conv_nth)
    let ?shop' = "(shopList s)[?i := ?shop] ! j"
    have "shop_id ?shop' = shopId d0 \<and> map_of (products ?shop') n = Some ?entry"
    proof (cases "j = ?i")
      case True
      with i(2) j(2) shop(2) have "shopId d = shopId d0" by simp
      with assms(2) have "productName p \<noteq> n" by simp
      with True i j shop show ?thesis by (simp add: AList.update_conv')
    next
      case False
      with j shop show ?thesis by simp
    qed
    moreover from j(1) have "?shop' \<in> set ((shopList s)[?i := ?shop])" by simp
    ultimately show ?thesis unfolding holds_offer_def list by blast
  qed
qed

lemma add_details_append:
  "add_details s p (xs @ ys) = add_details (add_details s p xs) p ys"
  by (induction xs arbitrary: s) simp_all

lemma add_details_holds_keep:
  "holds_offer (shopList s) n d0 \<Longrightarrow>
   \<forall>d\<in>set ds. shopId d \<noteq> shopId d0 \<or> productName p \<noteq> n \<Longrightarrow>
   holds_offer (shopList (add_details s p ds)) n d0"
proof (induction ds arbitrary: s)
  case Nil
  then show ?case by simp
next
  case (Cons d ds)
  from Cons.prems have "holds_offer (shopList (add_detail s p d)) n d0"
    by (intro add_detail_holds_keep) simp_all
  with Cons.prems(2) show ?case by (simp add: Cons.IH)
qed

lemma add_details_holds_last:
  assumes "\<forall>d'\<in>set ds2. shopId d' \<noteq> shopId d"
  shows "holds_offer (shopList (add_details s p (ds1 @ d # ds2))) (productName p) d"
proof -
  have "holds_offer (shopList (add_detail (add_details s p ds1) p d)) (productName p) d"
    by (rule add_detail_holds_new)
  then have "holds_offer (shopList (add_details (add_detail (add_details s p ds1) p d) p ds2))
               (productName p) d"
    using assms by (intro add_details_holds_keep) auto
  then show ?thesis by (simp add: add_details_append)
qed

lemma discover_offers_append:
  "discover_offers env s (xs @ ys) = discover_offers env (discover_offers env s xs) ys"
  by (induction xs arbitrary: s) simp_all

lemma discover_offers_holds_keep:
  "holds_offer (shopList s) n d0 \<Longrightarrow> \<forall>q\<in>set ext. productName q \<noteq> n \<Longrightarrow>
   holds_offer (shopList (discover_offers env s ext)) n d0"
proof (induction ext arbitrary: s)
  case Nil
  then show ?case by simp
next
  case (Cons q ext)
  show ?case
  proof (cases "findProductList env s q")
    case (Inl e)
    with Cons show ?thesis by simp
  next
    case (Inr ds)
    from Cons.prems have "holds_offer (shopList (add_details s q ds)) n d0"
      by (intro add_details_holds_keep) simp_all
    with Cons.prems(2) Inr show ?thesis by (simp add: Cons.IH)
  qed
qed

lemma discover_offers_holds_last:
  assumes "findProductList env s p = Inr (ds1 @ d # ds2)"
    and "\<forall>d'\<in>set ds2. shopId d' \<noteq> shopId d"
    and "\<forall>q\<in>set ext2. productName q \<noteq> productName p"
  shows "holds_offer (shopList (discover_offers env s (ext1 @ p # ext2))) (productName p) d"
proof -
  let ?s1 = "discover_offers env s ext1"
  have "findProductList env ?s1 p = findProductList env s p"
    by (rule findProductList_cong) simp
  with assms(1) have found: "findProductList env ?s1 p = Inr (ds1 @ d # ds2)" by simp
  have "holds_offer (shopList (add_details ?s1 p (ds1 @ d # ds2))) (productName p) d"
    using assms(2) by (rule add_details_holds_last)
  then have "holds_offer
      (shopList (discover_offers env (add_details ?s1 p (ds1 @ d # ds2)) ext2)) (productName p) d"
    using assms(3) by (rule discover_offers_holds_keep)
  with found show ?thesis by (simp add: discover_offers_append)
qed

lemma stage_C_keeps:
  assumes "distinct (map shop_id (shopList s))" and "i < length (shopList s)"
    and "map_of (products (shopList s ! i)) k = Some v"
  shows "map_of (products (shopList (stage_C env s) ! i)) k = Some v"
proof (cases "getShopId env (shop_id (shopList s ! i))")
  case (Inl e)
  with stage_C_probed[OF assms(2), where env = env] assms(3) show ?thesis
    by (simp add: probed_def)
next
  case (Inr sellerId)
  from assms(3) target_not_held[OF assms(1,2), of k]
  have "k \<notin> set (targetProduct_of s (shop_id (shopList s ! i)))" by auto
  with stage_C_probed[OF assms(2), where env = env] Inr assms(3) show ?thesis
    by (simp add: probed_def)
qed

lemma stage_C_holds:
  assumes "distinct (map shop_id (shopList s))" and "holds_offer (shopList s) n d"
  shows "holds_offer (shopList (stage_C env s)) n d"
proof -
  let ?entry = "\<lparr> product_id = detail_id d, product_price = price d, product_qtl = qtl d \<rparr>"
  from assms(2) obtain shop where shop: "shop \<in> set (shopList s)" "shop_id shop = shopId d"
    "map_of (products shop) n = Some ?entry"
    unfolding holds_offer_def by blast
  from shop(1) obtain i where i: "i < length (shopList s)" "shopList s ! i = shop"
    by (auto simp: in_set_conv_nth)
  let ?shop' = "shopList (stage_C env s) ! i"
  from stage_C_ids(1)[of env s] have len: "length (shopList (stage_C env s)) = length (shopList s)"
    by (rule map_eq_imp_length_eq)
  from stage_C_ids(1)[of env s] i shop(2) have "shop_id ?shop' = shopId d"
    by (metis map_eq_nth)
  moreover from stage_C_keeps[OF assms(1) i(1)] i(2) shop(3)
  have "map_of (products ?shop') n = Some ?entry" by simp
  moreover from len i(1) have "?shop' \<in> set (shopList (stage_C env s))" by simp
  ultimately show ?thesis unfolding holds_offer_def by blast
qed

lemma stage_D_holds:
  assumes "holds_offer (shopList s) n d"
  shows "holds_offer (shopList (snd (stage_D env s))) n d"
proof -
  from assms obtain shop where shop: "shop \<in> set (shopList s)" "shop_id shop = shopId d"
    "map_of (products shop) n
     = Some \<lparr> product_id = detail_id d, product_price = price d, product_qtl = qtl d \<rparr>"
    unfolding holds_offer_def by blast
  let ?shop = "shop\<lparr>freeShip := settled_freeShip env shop\<rparr>"
  from shop(1) have "?shop \<in> set (shopList (snd (stage_D env s)))"
    by (simp add: stage_D_run)
  moreover from shop have "shop_id ?shop = shopId d \<and> map_of (products ?shop) n
     = Some \<lparr> product_id = detail_id d, product_price = price d, product_qtl = qtl d \<rparr>"
    by simp
  ultimately show ?thesis unfolding holds_offer_def by blast
qed

lemma run_holds:
  assumes "distinct (map shop_id (shopList s))"
    and "getProductRequestExtended env s = Inr (ext1 @ p # ext2)"
    and "findProductList env (s\<lparr>shoppingListExtended := ext1 @ p # ext2\<rparr>) p
         = Inr (ds1 @ d # ds2)"
    and "\<forall>d'\<in>set ds2. shopId d' \<noteq> shopId d"
    and "\<forall>q\<in>set ext2. productName q \<noteq> productName p"
  shows "\<exists>shops. fst (getShopList env s) = Inr shops \<and> holds_offer shops (productName p) d"
proof -
  let ?ext = "ext1 @ p # ext2"
  from discover_offers_holds_last[OF assms(3,4,5)]
  have "holds_offer (shopList (stage_B env s ?ext)) (productName p) d"
    by (simp add: stage_B_def)
  moreover have "distinct (map shop_id (shopList (stage_B env s ?ext)))"
    using assms(1) by (rule stage_B_distinct)
  ultimately have "holds_offer (shopList (stage_C env (stage_B env s ?ext))) (productName p) d"
    by (rule stage_C_holds[rotated])
  then have "holds_offer (shopList (snd (stage_D env (stage_C env (stage_B env s ?ext)))))
               (productName p) d"
    by (rule stage_D_holds)
  with assms(2) show ?thesis by (simp add: getShopList_run)
qed


text \<open>
  Claim C1, as stated, at a list of two items of which the first has its card on file and
  the second has not: Stage A throws at the second item and the run returns the empty
  list, although the metadata of the first item resolves.
\<close>

theorem stage_A_failure_aborts:
  "card_found sample_env \<lparr>productName = ''1+UR'', count = 3\<rparr>
   \<and> \<not> card_found sample_env \<lparr>productName = ''3+UR'', count = 1\<rparr>
   \<and> getShopList sample_env
       (constructor [\<lparr>productName = ''1+UR'', count = 5\<rparr>, \<lparr>productName = ''3+UR'', count = 1\<rparr>])
     = (Inr [],
        \<lparr> shoppingList = [\<lparr>productName = ''1+UR'', count = 3\<rparr>,
                          \<lparr>productName = ''3+UR'', count = 1\<rparr>],
          shoppingListExtended = [], shopList = [],
          errorHandler = [Error ''Card data not found for 3 UR''] \<rparr>)"
  by code_simp

text \<open>
  Claim C1, amended. When Stage A fails for at least one requested item, the run pushes
  that error and returns the empty shop list. When the card metadata of every item
  resolves, the run returns a best-effort shop list that covers every item: for each offer
  that Stage B finds for an item, the returned list has a shop with the offer's shop id
  and an entry under the item's name; so the list is empty only if Stage B finds no offer
  at all. In a run that starts without repeated shop ids (as the constructor leaves the
  service), that entry is the offer's own id, price and quantity when no later offer for
  the item comes from the same shop and no later item of the list has the same name.
\<close>

theorem stage_A_all_or_nothing:
  "((\<exists>x\<in>set (shoppingList s). \<not> card_found env x) \<longrightarrow>
      (\<exists>e. getShopList env s = (Inr [], s\<lparr>errorHandler := errorHandler s @ [e]\<rparr>)))
   \<and> ((\<forall>x\<in>set (shoppingList s). card_found env x) \<longrightarrow>
      (\<exists>ext shops.
          getProductRequestExtended env s = Inr ext
          \<and> map productName ext = map productName (shoppingList s)
          \<and> fst (getShopList env s) = Inr shops
          \<and> (\<forall>p\<in>set ext. \<forall>ds.
                findProductList env (s\<lparr>shoppingListExtended := ext\<rparr>) p = Inr ds \<longrightarrow>
                (\<forall>d\<in>set ds. stocks shops (shopId d) (productName p))
                \<and> (shops = [] \<longrightarrow> ds = []))
          \<and> (distinct (map shop_id (shopList s)) \<longrightarrow>
               (\<forall>ext1 p ext2 ds1 d ds2.
                   ext = ext1 @ p # ext2 \<longrightarrow>
                   findProductList env (s\<lparr>shoppingListExtended := ext\<rparr>) p
                     = Inr (ds1 @ d # ds2) \<longrightarrow>
                   (\<forall>d'\<in>set ds2. shopId d' \<noteq> shopId d) \<longrightarrow>
                   (\<forall>q\<in>set ext2. productName q \<noteq> productName p) \<longrightarrow>
                   holds_offer shops (productName p) d))))"
proof (intro conjI impI)
  assume "\<exists>x\<in>set (shoppingList s). \<not> card_found env x"
  then have "\<not> (\<exists>ext. getProductRequestExtended env s = Inr ext)"
    by (simp add: stage_A_found)
  then obtain e where "getProductRequestExtended env s = Inl e"
    by (cases "getProductRequestExtended env s") auto
  then have "getShopList env s = (Inr [], s\<lparr>errorHandler := errorHandler s @ [e]\<rparr>)"
    by (simp add: getShopList_run)
  then show "\<exists>e. getShopList env s = (Inr [], s\<lparr>errorHandler := errorHandler s @ [e]\<rparr>)"
    by blast
next
  assume "\<forall>x\<in>set (shoppingList s). card_found env x"
  then obtain ext where ext: "getProductRequestExtended env s = Inr ext"
    using stage_A_found by blast
  let ?shops = "shopList (snd (stage_D env (stage_C env (stage_B env s ext))))"
  from ext have run: "fst (getShopList env s) = Inr ?shops"
    by (simp add: getShopList_run)
  have cover: "stocks ?shops (shopId d) (productName p)"
    if "p \<in> set ext" "findProductList env (s\<lparr>shoppingListExtended := ext\<rparr>) p = Inr ds"
      "d \<in> set ds" for p ds d
    using run_covers[OF ext that] run by simp
  have empty: "ds = []"
    if "p \<in> set ext" "findProductList env (s\<lparr>shoppingListExtended := ext\<rparr>) p = Inr ds"
      "?shops = []" for p ds
  proof (cases ds)
    case Nil
    then show ?thesis .
  next
    case (Cons d rest)
    with cover[OF that(1,2), of d] that(3) show ?thesis by (simp add: stocks_def)
  qed
  have held: "holds_offer ?shops (productName p) d"
    if "distinct (map shop_id (shopList s))" "ext = ext1 @ p # ext2"
      "findProductList env (s\<lparr>shoppingListExtended := ext\<rparr>) p = Inr (ds1 @ d # ds2)"
      "\<forall>d'\<in>set ds2. shopId d' \<noteq> shopId d" "\<forall>q\<in>set ext2. productName q \<noteq> productName p"
    for ext1 p ext2 ds1 d ds2
  proof -
    from ext that(2) have "getProductRequestExtended env s = Inr (ext1 @ p # ext2)" by simp
    from run_holds[OF that(1) this that(3)[unfolded that(2)] that(4,5)] run
    show ?thesis by simp
  qed
  from ext stage_A_names[OF ext] run cover empty held
  show "\<exists>ext shops.
          getProductRequestExtended env s = Inr ext
          \<and> map productName ext = map productName (shoppingList s)
          \<and> fst (getShopList env s) = Inr shops
          \<and> (\<forall>p\<in>set ext. \<forall>ds.
                findProductList env (s\<lparr>shoppingListExtended := ext\<rparr>) p = Inr ds \<longrightarrow>
                (\<forall>d\<in>set ds. stocks shops (shopId d) (productName p))
                \<and> (shops = [] \<longrightarrow> ds = []))
          \<and> (distinct (map shop_id (shopList s)) \<longrightarrow>
               (\<forall>ext1 p ext2 ds1 d ds2.
                   ext = ext1 @ p # ext2 \<longrightarrow>
                   findProductList env (s\<lparr>shoppingListExtended := ext\<rparr>) p
                     = Inr (ds1 @ d # ds2) \<longrightarrow>
                   (\<forall>d'\<in>set ds2. shopId d' \<noteq> shopId d) \<longrightarrow>
                   (\<forall>q\<in>set ext2. productName q \<noteq> productName p) \<longrightarrow>
                   holds_offer shops (productName p) d))"
    by blast
qed

theorem stage_A_all_or_nothing_witness:
  "\<not> card_found sample_env \<lparr>productName = ''3+UR'', count = 1\<rparr>
   \<and> fst (getShopList sample_env
         (constructor [\<lparr>productName = ''1+UR'', count = 5\<rparr>,
                       \<lparr>productName = ''3+UR'', count = 1\<rparr>])) = Inr []
   \<and> card_found sample_env \<lparr>productName = ''1+UR'', count = 3\<rparr>
   \<and> card_found sample_env \<lparr>productName = ''2+SR'', count = 2\<rparr>
   \<and> fst (getShopList sample_env (constructor sample_requests)) = Inr [shopA_final, shopC_final]
   \<and> stocks [shopA_final, shopC_final] ''shopA'' ''1+UR''
   \<and> stocks [shopA_final, shopC_final] ''shopC'' ''1+UR''
   \<and> holds_offer [shopA_final, shopC_final] ''1+UR''
        \<lparr> price = 50, qtl = 2, detail_id = ''L1'', shopId = ''shopA'',
          deliver_way = [(''SEVEN'', 60), (''POST'', 80), (''FAMI_COD'', 65)] \<rparr>
   \<and> holds_offer [shopA_final, shopC_final] ''1+UR''
        \<lparr> price = 60, qtl = 1, detail_id = ''L3'', shopId = ''shopC'',
          deliver_way = [(''HILIFE'', 45)] \<rparr>"
proof -
  let ?bad = "constructor [\<lparr>productName = ''1+UR'', count = 5\<rparr>,
                           \<lparr>productName = ''3+UR'', count = 1\<rparr>]"
  let ?s = "constructor sample_requests"
  let ?d1 = "\<lparr> price = 50, qtl = 2, detail_id = ''L1'', shopId = ''shopA'',
          deliver_way = [(''SEVEN'', 60), (''POST'', 80), (''FAMI_COD'', 65)] \<rparr>"
  let ?d3 = "\<lparr> price = 60, qtl = 1, detail_id = ''L3'', shopId = ''shopC'',
          deliver_way = [(''HILIFE'', 45)] \<rparr>"
  have missing: "\<not> card_found sample_env \<lparr>productName = ''3+UR'', count = 1\<rparr>"
    by code_simp
  have found: "card_found sample_env \<lparr>productName = ''1+UR'', count = 3\<rparr>"
    "card_found sample_env \<lparr>productName = ''2+SR'', count = 2\<rparr>"
    by code_simp+
  have "\<exists>x\<in>set (shoppingList ?bad). \<not> card_found sample_env x"
    using missing by (simp add: constructor_def)
  with stage_A_all_or_nothing[of ?bad sample_env]
  have aborted: "fst (getShopList sample_env ?bad) = Inr []"
    by auto
  have fresh: "distinct (map shop_id (shopList ?s))" by (simp add: constructor_def)
  note resolved = stage_A_all_or_nothing[of ?s sample_env, THEN conjunct2, THEN mp,
      OF sample_found]
  then obtain ext shops where run:
    "getProductRequestExtended sample_env ?s = Inr ext"
    "fst (getShopList sample_env ?s) = Inr shops"
    "\<forall>p\<in>set ext. \<forall>ds.
        findProductList sample_env (?s\<lparr>shoppingListExtended := ext\<rparr>) p = Inr ds \<longrightarrow>
        (\<forall>d\<in>set ds. stocks shops (shopId d) (productName p))
        \<and> (shops = [] \<longrightarrow> ds = [])"
    "distinct (map shop_id (shopList ?s)) \<longrightarrow>
     (\<forall>ext1 p ext2 ds1 d ds2.
        ext = ext1 @ p # ext2 \<longrightarrow>
        findProductList sample_env (?s\<lparr>shoppingListExtended := ext\<rparr>) p
          = Inr (ds1 @ d # ds2) \<longrightarrow>
        (\<forall>d'\<in>set ds2. shopId d' \<noteq> shopId d) \<longrightarrow>
        (\<forall>q\<in>set ext2. productName q \<noteq> productName p) \<longrightarrow>
        holds_offer shops (productName p) d)"
    by (elim exE conjE)
  from run(4) fresh have last_held:
    "\<And>ext1 p ext2 ds1 d ds2.
        ext = ext1 @ p # ext2 \<Longrightarrow>
        findProductList sample_env (?s\<lparr>shoppingListExtended := ext\<rparr>) p
          = Inr (ds1 @ d # ds2) \<Longrightarrow>
        \<forall>d'\<in>set ds2. shopId d' \<noteq> shopId d \<Longrightarrow>
        \<forall>q\<in>set ext2. productName q \<noteq> productName p \<Longrightarrow>
        holds_offer shops (productName p) d"
    by blast
  from run(1) sample_resolve have ext: "ext = sample_extended" by simp
  from run(2) sample_run have shops: "shops = [shopA_final, shopC_final]" by simp
  have p: "sample_extended ! 0 \<in> set ext" "productName (sample_extended ! 0) = ''1+UR''"
    by (simp_all add: ext sample_extended_def)
  from run(3) p(1) sample_offers
  have "\<forall>d\<in>set [to_ProdDetail listing1, to_ProdDetail listing3].
          stocks shops (shopId d) (productName (sample_extended ! 0))"
    unfolding ext by blast
  then have covered: "stocks [shopA_final, shopC_final] ''shopA'' ''1+UR''"
    "stocks [shopA_final, shopC_final] ''shopC'' ''1+UR''"
    by (simp_all add: shops p(2) to_ProdDetail_def listing1_def listing3_def)
  have split: "ext = [] @ sample_extended ! 0 # [sample_extended ! 1]"
    by (simp add: ext sample_extended_def)
  have later: "\<forall>q\<in>set [sample_extended ! 1]. productName q \<noteq> productName (sample_extended ! 0)"
    by (simp add: sample_extended_def)
  have d: "to_ProdDetail listing1 = ?d1" "to_ProdDetail listing3 = ?d3"
    by (simp_all add: to_ProdDetail_def listing1_def listing3_def)
  have offers1: "findProductList sample_env (?s\<lparr>shoppingListExtended := ext\<rparr>) (sample_extended ! 0)
                = Inr ([] @ ?d1 # [?d3])"
    using sample_offers by (simp add: ext d)
  have offers3: "findProductList sample_env (?s\<lparr>shoppingListExtended := ext\<rparr>) (sample_extended ! 0)
                = Inr ([?d1] @ ?d3 # [])"
    using sample_offers by (simp add: ext d)
  have other: "\<forall>d'\<in>set [?d3]. shopId d' \<noteq> shopId ?d1" "\<forall>d'\<in>set []. shopId d' \<noteq> shopId ?d3"
    by simp_all
  have "holds_offer shops (productName (sample_extended ! 0)) ?d1"
    using split offers1 other(1) later by (rule last_held)
  moreover have "holds_offer shops (productName (sample_extended ! 0)) ?d3"
    using split offers3 other(2) later by (rule last_held)
  ultimately have held: "holds_offer [shopA_final, shopC_final] ''1+UR'' ?d1"
    "holds_offer [shopA_final, shopC_final] ''1+UR'' ?d3"
    by (simp_all add: shops p(2))
  from missing found aborted sample_run covered held show ?thesis by simp
qed

end
